theory Spec2Isabelle
  imports Complex_Main
begin

section \<open>Python values and exceptions\<close>

text \<open>
  The exceptions the embedded code can raise. A function that can raise returns
  \<open>error + 'a\<close>, with \<open>Inl\<close> for the exception.
\<close>

datatype error =
  KeyError | TypeError | IndexError | RuntimeError | ValueError | UnboundLocalError | AttributeError

definition ebind :: "error + 'a \<Rightarrow> ('a \<Rightarrow> error + 'b) \<Rightarrow> error + 'b" where
  "ebind r f = (case r of Inl e \<Rightarrow> Inl e | Inr x \<Rightarrow> f x)"

text \<open>
  The values a conversation record holds: ints, strings and (nested) lists.
  A record (\<open>conv_dict\<close>) is a Python dict from field names to values.
\<close>

datatype pyval = PInt int | PStr string | PList "pyval list"

type_synonym conv_dict = "string \<rightharpoonup> pyval"

definition getitem :: "conv_dict \<Rightarrow> string \<Rightarrow> error + pyval" where
  "getitem d k = (case d k of None \<Rightarrow> Inl KeyError | Some v \<Rightarrow> Inr v)"

text \<open>\<open>for x in v\<close>: a list yields its elements, a string its characters, an int raises.\<close>

fun iter :: "pyval \<Rightarrow> error + pyval list" where
  "iter (PList xs) = Inr xs"
| "iter (PStr s) = Inr (map (\<lambda>c. PStr [c]) s)"
| "iter (PInt n) = Inl TypeError"

section \<open>Tensors\<close>

text \<open>
  A float is a real number: the embedding does not follow floating-point rounding. A
  vector is a list, a matrix a list of rows, a batch of matrices a list of matrices.
\<close>

type_synonym vec = "real list"
type_synonym mat = "real list list"

text \<open>
  Indexing a node-embedding matrix of \<open>n\<close> rows by an id, as
  \<open>entity_graph_representations[context_entities]\<close> does per id: an id outside
  \<open>-n..n-1\<close> raises \<open>IndexError\<close>, a negative id counts from the end.
\<close>

definition index_row :: "'a list \<Rightarrow> int \<Rightarrow> error + 'a" where
  "index_row rows i =
     (let n = int (length rows) in
      if 0 \<le> i \<and> i < n then Inr (rows ! nat i)
      else if - n \<le> i \<and> i < 0 then Inr (rows ! nat (n + i))
      else Inl IndexError)"

text \<open>\<open>torch.cat((a, b), dim=1)\<close> of two matrices: the rows joined; the row counts must agree.\<close>

definition cat_dim1 :: "'a list list \<Rightarrow> 'a list list \<Rightarrow> error + 'a list list" where
  "cat_dim1 a b =
     (if length a = length b then Inr (map (\<lambda>(x, y). x @ y) (zip a b)) else Inl RuntimeError)"

text \<open>A raising function applied to every element of a list, stopping at the first error.\<close>

fun emap :: "('a \<Rightarrow> error + 'b) \<Rightarrow> 'a list \<Rightarrow> error + 'b list" where
  "emap f [] = Inr []"
| "emap f (x # xs) = ebind (f x) (\<lambda>y. ebind (emap f xs) (\<lambda>ys. Inr (y # ys)))"

text \<open>\<open>representations[ids]\<close> for a batch of id sequences.\<close>

definition lookup :: "mat \<Rightarrow> int list list \<Rightarrow> error + mat list" where
  "lookup reps ids = emap (emap (index_row reps)) ids"

definition dot :: "vec \<Rightarrow> vec \<Rightarrow> real" where
  "dot x w = sum_list (map2 (*) x w)"

text \<open>\<open>F.linear(x, W, b)\<close> and \<open>F.linear(x, W)\<close> for one vector \<open>x\<close>.\<close>

definition linear :: "vec \<Rightarrow> mat \<Rightarrow> vec \<Rightarrow> vec" where
  "linear x W b = map2 (\<lambda>w bi. dot x w + bi) W b"

definition linear0 :: "vec \<Rightarrow> mat \<Rightarrow> vec" where
  "linear0 x W = map (dot x) W"

text \<open>
  \<open>torch.cat((a, b, c), dim=-1)\<close> of three batches of matrices: the vectors at each
  position joined. The batch sizes and the row counts must agree.
\<close>

definition cat_last :: "mat list \<Rightarrow> mat list \<Rightarrow> mat list \<Rightarrow> error + mat list" where
  "cat_last a b c =
     (if map length a = map length b \<and> map length b = map length c
      then Inr (map (\<lambda>(x, y, z). map (\<lambda>(u, v, w). u @ v @ w) (zip x (zip y z))) (zip a (zip b c)))
      else Inl RuntimeError)"

text \<open>
  \<open>torch.cat(logits, dim=1)\<close> of a Python list of batches: an empty list raises; the
  batch sizes must agree.
\<close>

definition cat_steps :: "mat list list \<Rightarrow> error + mat list" where
  "cat_steps steps =
     (case steps of
        [] \<Rightarrow> Inl RuntimeError
      | s # ss \<Rightarrow>
          if list_all (\<lambda>s'. length s' = length s) ss
          then Inr (map (\<lambda>b. concat (map (\<lambda>s'. s' ! b) (s # ss))) [0..<length s])
          else Inl RuntimeError)"

text \<open>
  \<open>argmax(dim=-1)\<close> of one vector: the index of the first greatest entry. (A model
  has a vocabulary, so the vector is not empty; the empty vector gets 0 here.)
\<close>

fun argmax_from :: "nat \<Rightarrow> real \<Rightarrow> nat \<Rightarrow> vec \<Rightarrow> nat" where
  "argmax_from bi bv i [] = bi"
| "argmax_from bi bv i (x # xs) =
     (if bv < x then argmax_from i x (Suc i) xs else argmax_from bi bv (Suc i) xs)"

definition argmax :: "vec \<Rightarrow> nat" where
  "argmax xs = (case xs of [] \<Rightarrow> 0 | x # xs' \<Rightarrow> argmax_from 0 x 1 xs')"

text \<open>
  \<open>topk(k, dim=-1)\<close> of one vector: the \<open>k\<close> greatest entries and their indices, greatest
  first, equal entries in index order; more than the vector holds raises.
\<close>

definition topk :: "nat \<Rightarrow> vec \<Rightarrow> error + vec \<times> nat list" where
  "topk k xs =
     (if length xs < k then Inl RuntimeError
      else let idx = take k (sort_key (\<lambda>i. - (xs ! i)) [0..<length xs])
           in Inr (map (\<lambda>i. xs ! i) idx, idx))"

text \<open>
  Where the code indexes a tensor step by step (\<open>preds[n][j][0][k]\<close>), what it gets
  depends on how many dimensions the tensor has at that moment. Such a tensor is a
  tree: a number (a tensor of no dimension), or the list of its slices along its
  first dimension. A vector, a matrix and a batch of matrices are the trees of depth
  1, 2 and 3.
\<close>

datatype 'a tensor = Scalar 'a | Tensor "'a tensor list"

definition tensor1 :: "'a list \<Rightarrow> 'a tensor" where
  "tensor1 xs = Tensor (map Scalar xs)"

definition tensor2 :: "'a list list \<Rightarrow> 'a tensor" where
  "tensor2 xs = Tensor (map tensor1 xs)"

definition tensor3 :: "'a list list list \<Rightarrow> 'a tensor" where
  "tensor3 xs = Tensor (map tensor2 xs)"

text \<open>
  \<open>t[i]\<close> for an index \<open>i \<ge> 0\<close>: \<open>IndexError\<close> for a tensor of no dimension
  (\<open>invalid index of a 0-dim tensor\<close>) and for an index past the first dimension.
  \<open>t[i][j]...\<close> is one such step after the other.
\<close>

fun tindex :: "'a tensor \<Rightarrow> nat \<Rightarrow> error + 'a tensor" where
  "tindex (Scalar x) i = Inl IndexError"
| "tindex (Tensor ts) i = (if i < length ts then Inr (ts ! i) else Inl IndexError)"

fun tindexes :: "'a tensor \<Rightarrow> nat list \<Rightarrow> error + 'a tensor" where
  "tindexes t [] = Inr t"
| "tindexes t (i # rest) = ebind (tindex t i) (\<lambda>u. tindexes u rest)"

text \<open>\<open>t.reshape(-1)\<close>: the entries in order; \<open>t.shape\<close>; \<open>t.unsqueeze(0)\<close>.\<close>

primrec flatten :: "'a tensor \<Rightarrow> 'a list" where
  "flatten (Scalar x) = [x]"
| "flatten (Tensor ts) = concat (map flatten ts)"

primrec shape :: "'a tensor \<Rightarrow> nat list" where
  "shape (Scalar x) = []"
| "shape (Tensor ts) = length ts # (case map shape ts of [] \<Rightarrow> [] | d # _ \<Rightarrow> d)"

definition unsqueeze0 :: "'a tensor \<Rightarrow> 'a tensor" where
  "unsqueeze0 t = Tensor [t]"

text \<open>
  \<open>torch.cat((a, b))\<close> along the first dimension: a tensor of no dimension cannot be
  joined, and the other dimensions must agree.
\<close>

definition tcat :: "'a tensor \<Rightarrow> 'a tensor \<Rightarrow> error + 'a tensor" where
  "tcat a b =
     (case (a, b) of
        (Tensor xs, Tensor ys) \<Rightarrow>
          if tl (shape a) = tl (shape b) then Inr (Tensor (xs @ ys)) else Inl RuntimeError
      | _ \<Rightarrow> Inl RuntimeError)"

text \<open>
  \<open>torch.stack(xs)\<close> of a Python list whose elements are tensors or, where the code has
  not yet put a tensor, the empty Python list \<open>list()\<close> (\<open>None\<close> here): the empty list
  of tensors raises \<open>RuntimeError\<close>, an element that is not a tensor \<open>TypeError\<close>, and
  tensors of different shapes \<open>RuntimeError\<close>.
\<close>

definition stack :: "'a tensor option list \<Rightarrow> error + 'a tensor" where
  "stack xs =
     (case xs of
        [] \<Rightarrow> Inl RuntimeError
      | x # rest \<Rightarrow>
          if list_ex (\<lambda>y. y = None) xs then Inl TypeError
          else if list_ex (\<lambda>y. shape (the y) \<noteq> shape (the x)) rest then Inl RuntimeError
          else Inr (Tensor (map the xs)))"

text \<open>
  \<open>xs.reshape(beam, batch_size, -1)\<close> of the entries \<open>xs\<close> of a tensor: the count of
  entries must be a multiple of \<open>beam * batch_size\<close>, and with no entry and
  \<open>beam * batch_size = 0\<close> the last dimension is ambiguous.
\<close>

definition reshape3 :: "nat \<Rightarrow> nat \<Rightarrow> 'a list \<Rightarrow> error + 'a list list list" where
  "reshape3 beam batch_size xs =
     (if beam * batch_size = 0 \<or> length xs mod (beam * batch_size) \<noteq> 0 then Inl RuntimeError
      else let len = length xs div (beam * batch_size);
               rows = map (\<lambda>i. take len (drop (i * len) xs)) [0..<beam * batch_size]
           in Inr (map (\<lambda>b. take batch_size (drop (b * batch_size) rows)) [0..<beam]))"

text \<open>
  \<open>F.softmax(x)\<close> with no \<open>dim\<close> given, for a tensor of three dimensions: PyTorch takes
  dimension 0 then. Each entry is weighed against the entries at its position in the
  other slices of the first dimension.
\<close>

definition softmax0 :: "mat list \<Rightarrow> mat list" where
  "softmax0 x =
     map (\<lambda>r. map (\<lambda>t. map (\<lambda>v. exp (r ! t ! v) / sum_list (map (\<lambda>r'. exp (r' ! t ! v)) x))
                          [0..<length (r ! t)])
                 [0..<length r]) x"

section \<open>The model: \<open>crslab/model/crs/kgsf/kgsf.py\<close>\<close>

text \<open>The modules \<open>build_model\<close> creates.\<close>

datatype module =
    Token_embedding | Word_kg_embedding | Entity_encoder | Entity_self_attn | Word_encoder
  | Word_self_attn | Gate_layer | Infomax_norm | Infomax_bias | Rec_bias | Conv_encoder
  | Conv_entity_norm | Conv_entity_attn_norm | Conv_word_norm | Conv_word_attn_norm
  | Copy_norm | Copy_output | Conv_decoder

text \<open>
  The output \<open>(encoder states, mask)\<close> of \<open>conv_encoder\<close>, and the decoder's incremental
  state. The model reads the batch size off the encoder states; the mask it only
  hands on to the decoder, whatever its shape.
\<close>

type_synonym tok_enc = "mat list \<times> bool tensor"
type_synonym incr_state = "mat list"

text \<open>
  \<open>KGSFModel\<close>: the configuration it reads, and each learned module as the function it
  computes at the current parameter values. The spec treats the encoder, decoder and
  graph-convolution implementations as pure functions with declared shapes:
  \<^item> \<open>entity_encoder\<close> is the matrix \<open>entity_encoder(None, edge_idx, edge_type)\<close>, one row
    per entity; \<open>word_encoder\<close> maps the word embedding matrix to one row per word;
  \<^item> the self-attention poolers, the gate and the linear layers act on each example
    of the batch on its own;
  \<^item> \<open>conv_decoder\<close> returns the latent vector at each batch row and position of its
    input (shape \<open>(bs, seq_len, dim)\<close>) and the next incremental state;
  \<^item> \<open>cross_entropy\<close> is \<open>nn.CrossEntropyLoss\<close> on the supervised (logits, target)
    pairs.
\<close>

record kgsf =
  pad_token_idx :: nat
  start_token_idx :: nat
  end_token_idx :: nat
  pad_word_idx :: int
  pad_entity_idx :: int
  response_truncate :: nat
  n_params :: "module \<Rightarrow> nat"
  token_embedding :: mat
  word_kg_embedding :: mat
  entity_encoder :: mat
  word_encoder :: "mat \<Rightarrow> mat"
  entity_self_attn :: "mat \<Rightarrow> bool list \<Rightarrow> vec"
  word_self_attn :: "mat \<Rightarrow> bool list \<Rightarrow> vec"
  gate_layer :: "vec \<Rightarrow> vec \<Rightarrow> vec"
  infomax_norm :: "vec \<Rightarrow> vec"
  infomax_bias :: vec
  rec_bias :: vec
  conv_encoder :: "nat list list \<Rightarrow> tok_enc"
  conv_entity_norm :: "vec \<Rightarrow> vec"
  conv_entity_attn_norm :: "vec \<Rightarrow> vec"
  conv_word_norm :: "vec \<Rightarrow> vec"
  conv_word_attn_norm :: "vec \<Rightarrow> vec"
  copy_norm :: "vec \<Rightarrow> vec"
  copy_output :: "vec \<Rightarrow> vec"
  copy_mask :: "bool list"
  conv_decoder :: "nat list list \<Rightarrow> tok_enc \<Rightarrow> mat list \<Rightarrow> bool list list \<Rightarrow> mat list
                     \<Rightarrow> bool list list \<Rightarrow> incr_state option
                     \<Rightarrow> (nat \<Rightarrow> nat \<Rightarrow> vec) \<times> incr_state option"
  cross_entropy :: "(vec \<times> nat) list \<Rightarrow> real"

text \<open>\<open>self.rec_loss\<close>, and \<open>self.conv_loss\<close> with its \<open>ignore_index=self.pad_token_idx\<close>.\<close>

definition rec_loss :: "kgsf \<Rightarrow> mat \<Rightarrow> nat list \<Rightarrow> real" where
  "rec_loss m scores movie = cross_entropy m (zip scores movie)"

definition conv_loss :: "kgsf \<Rightarrow> mat \<Rightarrow> nat list \<Rightarrow> real" where
  "conv_loss m logits targets =
     cross_entropy m (filter (\<lambda>(l, t). t \<noteq> pad_token_idx m) (zip logits targets))"

text \<open>\<open>nn.MSELoss(reduction='sum')\<close> and \<open>torch.sum\<close> of a matrix.\<close>

definition infomax_loss :: "mat \<Rightarrow> mat \<Rightarrow> real" where
  "infomax_loss predict labels =
     sum_list (map2 (\<lambda>p l. sum_list (map2 (\<lambda>x y. (x - y)\<^sup>2) p l)) predict labels)"

definition sum_all :: "mat \<Rightarrow> real" where
  "sum_all t = sum_list (map sum_list t)"

subsection \<open>\<open>pretrain_infomax\<close> and \<open>recommend\<close>\<close>

definition pretrain_infomax :: "kgsf \<Rightarrow> int list list \<times> mat \<Rightarrow> error + real option" where
  "pretrain_infomax m batch =
     (case batch of (words, entity_labels) \<Rightarrow>
      let loss_mask = sum_all entity_labels in
      if loss_mask = 0 then Inr None
      else
        let entity_graph_representations = entity_encoder m;
            word_graph_representations = word_encoder m (word_kg_embedding m)
        in ebind (lookup word_graph_representations words) (\<lambda>word_representations.
           let word_padding_mask = map (map (\<lambda>w. w = pad_word_idx m)) words;
               word_attn_rep = map2 (word_self_attn m) word_representations word_padding_mask;
               word_info_rep = map (infomax_norm m) word_attn_rep;
               info_predict = map (\<lambda>w. linear w entity_graph_representations (infomax_bias m))
                                  word_info_rep
           in Inr (Some (infomax_loss info_predict entity_labels / loss_mask))))"

text \<open>
  \<open>recommend\<close> returns \<open>(rec_loss, info_loss, rec_scores)\<close>. The gate combines the two
  pooled vectors of one example, so the two id tensors must have one batch size.
\<close>

definition recommend ::
  "kgsf \<Rightarrow> int list list \<times> int list list \<times> mat \<times> nat list \<Rightarrow> string
     \<Rightarrow> error + real \<times> real option \<times> mat" where
  "recommend m batch mode =
     (case batch of (context_entities, context_words, entities, movie) \<Rightarrow>
      let entity_graph_representations = entity_encoder m;
          word_graph_representations = word_encoder m (word_kg_embedding m);
          entity_padding_mask = map (map (\<lambda>e. e = pad_entity_idx m)) context_entities;
          word_padding_mask = map (map (\<lambda>w. w = pad_word_idx m)) context_words
      in ebind (lookup entity_graph_representations context_entities) (\<lambda>entity_representations.
         ebind (lookup word_graph_representations context_words) (\<lambda>word_representations.
         let entity_attn_rep = map2 (entity_self_attn m) entity_representations entity_padding_mask;
             word_attn_rep = map2 (word_self_attn m) word_representations word_padding_mask
         in if length entity_attn_rep \<noteq> length word_attn_rep then Inl RuntimeError
            else
              let user_rep = map2 (gate_layer m) entity_attn_rep word_attn_rep;
                  rec_scores = map (\<lambda>u. linear u entity_graph_representations (rec_bias m)) user_rep;
                  rec_loss_value = rec_loss m rec_scores movie;
                  info_loss_mask = sum_all entities;
                  info_loss =
                    (if info_loss_mask = 0 then None
                     else
                       let word_info_rep = map (infomax_norm m) word_attn_rep;
                           info_predict = map (\<lambda>w. linear w entity_graph_representations (infomax_bias m))
                                              word_info_rep
                       in Some (infomax_loss info_predict entities / info_loss_mask))
              in Inr (rec_loss_value, info_loss, rec_scores))))"

subsection \<open>\<open>freeze_parameters\<close>\<close>

text \<open>
  A parameter is named by the module that owns it and its index there. A module's
  \<open>parameters()\<close> are its own and those of its submodules: \<open>conv_decoder\<close> is built with
  \<open>embedding=self.token_embedding\<close>, so it shares the token embedding's parameters.
\<close>

type_synonym param = "module \<times> nat"

definition parameters :: "kgsf \<Rightarrow> module \<Rightarrow> param list" where
  "parameters m md =
     map (Pair md) [0..<n_params m md]
     @ (if md = Conv_decoder then map (Pair Token_embedding) [0..<n_params m Token_embedding] else [])"

definition freeze_models :: "module list" where
  "freeze_models = [Word_kg_embedding, Entity_encoder, Entity_self_attn, Word_encoder,
                    Word_self_attn, Gate_layer, Infomax_bias, Infomax_norm, Rec_bias]"

text \<open>
  \<open>for model in freeze_models: for p in model.parameters(): p.requires_grad = False\<close>,
  on the map from parameters to their \<open>requires_grad\<close> flag.
\<close>

definition freeze_parameters :: "kgsf \<Rightarrow> (param \<Rightarrow> bool) \<Rightarrow> (param \<Rightarrow> bool)" where
  "freeze_parameters m requires_grad =
     fold (\<lambda>p rg. rg(p := False)) (concat (map (parameters m) freeze_models)) requires_grad"

subsection \<open>Decoding\<close>

text \<open>
  The seven tensors every decode function takes: the encoder output, and for entities
  and words the per-position representations, the pooled vector and the padding mask.
\<close>

record dec_args =
  token_encoding :: tok_enc
  entity_reps :: "mat list"
  entity_emb_attn :: mat
  entity_mask :: "bool list list"
  word_reps :: "mat list"
  word_emb_attn :: mat
  word_mask :: "bool list list"

text \<open>The decoder's output tensor \<open>(bs, seq_len, dim)\<close> for \<open>inputs\<close>, and its next state.\<close>

definition run_decoder ::
  "kgsf \<Rightarrow> nat list list \<Rightarrow> dec_args \<Rightarrow> incr_state option \<Rightarrow> mat list \<times> incr_state option" where
  "run_decoder m inputs a incr =
     (case conv_decoder m inputs (token_encoding a) (word_reps a) (word_mask a)
             (entity_reps a) (entity_mask a) incr of
        (f, incr') \<Rightarrow> (map (\<lambda>b. map (f b) [0..<length (inputs ! b)]) [0..<length inputs], incr'))"

text \<open>
  The logits at one position: the copy logits
  \<open>copy_output(copy_norm(cat(entity, word, dialog))) * copy_mask\<close> plus the generation
  logits \<open>F.linear(dialog_latent, token_embedding.weight)\<close>.
\<close>

definition sum_logits_at :: "kgsf \<Rightarrow> vec \<Rightarrow> vec \<Rightarrow> vec" where
  "sum_logits_at m copy_in dialog =
     (let copy_latent = copy_norm m copy_in;
          copy_logits = map2 (\<lambda>x c. if c then x else 0) (copy_output m copy_latent) (copy_mask m);
          gen_logits = linear0 dialog (token_embedding m)
      in map2 (+) copy_logits gen_logits)"

text \<open>\<open>self._starts(batch_size)\<close>.\<close>

definition starts :: "kgsf \<Rightarrow> nat \<Rightarrow> nat list list" where
  "starts m batch_size = replicate batch_size [start_token_idx m]"

text \<open>
  \<open>_decode_forced_with_kg\<close>. \<open>response.shape\<close> gives the batch size and \<open>seq_len\<close>; the
  inputs are START and the response without its last column.
\<close>

definition forced_inputs :: "kgsf \<Rightarrow> nat list list \<Rightarrow> nat list list" where
  "forced_inputs m response = map (\<lambda>(s, r). s @ butlast r) (zip (starts m (length response)) response)"

definition decode_forced_with_kg ::
  "kgsf \<Rightarrow> dec_args \<Rightarrow> nat list list \<Rightarrow> error + mat list \<times> nat list list" where
  "decode_forced_with_kg m a response =
     (let seq_len = (case response of [] \<Rightarrow> 0 | r # _ \<Rightarrow> length r);
          inputs = forced_inputs m response;
          dialog_latent = fst (run_decoder m inputs a None);
          entity_latent = map (replicate seq_len) (entity_emb_attn a);
          word_latent = map (replicate seq_len) (word_emb_attn a)
      in ebind (cat_last entity_latent word_latent dialog_latent) (\<lambda>copy_in.
         let sum_logits = map2 (map2 (sum_logits_at m)) copy_in dialog_latent;
             preds = map (map argmax) sum_logits
         in Inr (sum_logits, preds)))"

text \<open>
  One pass of the loop of \<open>_decode_greedy_with_kg\<close>: the logits of the last position,
  the inputs with the predictions appended, the decoder's state.
\<close>

definition greedy_step ::
  "kgsf \<Rightarrow> dec_args \<Rightarrow> nat list list \<Rightarrow> incr_state option
     \<Rightarrow> error + mat list \<times> nat list list \<times> incr_state option" where
  "greedy_step m a inputs incr =
     (case run_decoder m inputs a incr of (dialog_latent, incr') \<Rightarrow>
      let dialog_last = map (\<lambda>r. drop (length r - 1) r) dialog_latent;
          db_latent = map (\<lambda>e. [e]) (entity_emb_attn a);
          concept_latent = map (\<lambda>w. [w]) (word_emb_attn a)
      in ebind (cat_last db_latent concept_latent dialog_last) (\<lambda>copy_in.
         let sum_logits = map2 (map2 (sum_logits_at m)) copy_in dialog_last;
             preds = map (map argmax) sum_logits
         in ebind (cat_dim1 inputs preds) (\<lambda>inputs'.
            Inr (sum_logits, inputs', incr'))))"

text \<open>
  \<open>finished\<close>: the number of rows of \<open>inputs\<close> that hold the end token equals the
  batch size.
\<close>

definition finished :: "kgsf \<Rightarrow> nat \<Rightarrow> nat list list \<Rightarrow> bool" where
  "finished m batch_size inputs =
     (length (filter (\<lambda>row. end_token_idx m \<in> set row) inputs) = batch_size)"

text \<open>
  The loop \<open>for _ in range(self.response_truncate)\<close> with its \<open>break\<close>: the first
  number is the count of passes left.
\<close>

fun greedy_loop ::
  "kgsf \<Rightarrow> dec_args \<Rightarrow> nat \<Rightarrow> nat \<Rightarrow> nat list list \<Rightarrow> incr_state option \<Rightarrow> mat list list
     \<Rightarrow> error + mat list list \<times> nat list list" where
  "greedy_loop m a batch_size 0 inputs incr logits = Inr (logits, inputs)"
| "greedy_loop m a batch_size (Suc n) inputs incr logits =
     ebind (greedy_step m a inputs incr) (\<lambda>(sum_logits, inputs', incr').
       if finished m batch_size inputs' then Inr (logits @ [sum_logits], inputs')
       else greedy_loop m a batch_size n inputs' incr' (logits @ [sum_logits]))"

text \<open>
  For stating when the loop stops: the inputs and the decoder state after \<open>k\<close> passes
  of the loop body, with no test for the end token between them.
\<close>

fun greedy_prefix ::
  "kgsf \<Rightarrow> dec_args \<Rightarrow> nat \<Rightarrow> nat list list \<Rightarrow> incr_state option
     \<Rightarrow> error + nat list list \<times> incr_state option" where
  "greedy_prefix m a 0 inputs incr = Inr (inputs, incr)"
| "greedy_prefix m a (Suc k) inputs incr =
     ebind (greedy_step m a inputs incr) (\<lambda>(sum_logits, inputs', incr').
       greedy_prefix m a k inputs' incr')"

definition decode_greedy_with_kg :: "kgsf \<Rightarrow> dec_args \<Rightarrow> error + mat list \<times> nat list list" where
  "decode_greedy_with_kg m a =
     (let batch_size = length (fst (token_encoding a));
          inputs = starts m batch_size
      in ebind (greedy_loop m a batch_size (response_truncate m) inputs None []) (\<lambda>(logits, inputs').
         ebind (cat_steps logits) (\<lambda>logits'. Inr (logits', inputs'))))"

subsection \<open>Beam search\<close>

text \<open>
  One candidate of \<open>sequences[j]\<close>: the tokens so far, the logits so far, the score.
  \<open>_initialize_beam_search\<close> puts the empty Python list \<open>list()\<close> (\<open>None\<close> here) for
  the first two and the float \<open>1.0\<close> for the score; \<open>_update_sequences\<close> puts tensors.
  \<open>self._starts(batch_size).reshape(1, batch_size, -1)\<close> raises for a batch of size 0,
  which has no entry to tell the last dimension from.
\<close>

type_synonym beam_seq = "nat tensor option \<times> real tensor option \<times> real"

definition initialize_beam_search ::
  "kgsf \<Rightarrow> nat \<Rightarrow> nat
     \<Rightarrow> error + beam_seq list list \<times> nat list list list \<times> incr_state option" where
  "initialize_beam_search m batch_size beam =
     (if batch_size = 0 then Inl RuntimeError
      else Inr (replicate batch_size [(None, None, 1)], [starts m batch_size], None))"

text \<open>
  \<open>_repeat_inputs\<close>: \<open>x.repeat(beam, 1, 1)\<close> and \<open>x.repeat(beam, 1)\<close> tile a tensor of
  three and of two dimensions \<open>beam\<close> times along the first one. For the encoder mask,
  \<open>repeat(beam, 1, 1)\<close> does so when the mask has three dimensions, gives a mask with
  fewer dimensions a first dimension \<open>beam\<close> of copies (and dimensions of size 1 up to
  three), and raises for more than three.
\<close>

definition repeat3 :: "nat \<Rightarrow> 'a tensor \<Rightarrow> error + 'a tensor" where
  "repeat3 beam t =
     (case t of
        Scalar x \<Rightarrow> Inr (Tensor (replicate beam (Tensor [Tensor [t]])))
      | Tensor ts \<Rightarrow>
          if length (shape t) = 1 then Inr (Tensor (replicate beam (Tensor [t])))
          else if length (shape t) = 2 then Inr (Tensor (replicate beam t))
          else if length (shape t) = 3 then Inr (Tensor (concat (replicate beam ts)))
          else Inl RuntimeError)"

definition repeat_inputs :: "dec_args \<Rightarrow> nat \<Rightarrow> error + dec_args" where
  "repeat_inputs a beam =
     ebind (repeat3 beam (snd (token_encoding a))) (\<lambda>enc_mask.
     Inr \<lparr> token_encoding = (concat (replicate beam (fst (token_encoding a))), enc_mask),
           entity_reps = concat (replicate beam (entity_reps a)),
           entity_emb_attn = concat (replicate beam (entity_emb_attn a)),
           entity_mask = concat (replicate beam (entity_mask a)),
           word_reps = concat (replicate beam (word_reps a)),
           word_emb_attn = concat (replicate beam (word_emb_attn a)),
           word_mask = concat (replicate beam (word_mask a)) \<rparr>)"

text \<open>
  \<open>_get_inputs_from_sequences\<close>: the tokens of the first candidate of every example,
  stacked and reshaped to \<open>(beam, batch_size, -1)\<close>. \<open>seq[0]\<close> raises for an example
  with no candidate.
\<close>

definition get_inputs_from_sequences ::
  "beam_seq list list \<Rightarrow> nat \<Rightarrow> nat \<Rightarrow> error + nat list list list" where
  "get_inputs_from_sequences sequences beam batch_size =
     ebind (emap (\<lambda>seq. ebind (index_row seq 0) (\<lambda>c. Inr (fst c))) sequences) (\<lambda>tokens.
     ebind (stack tokens) (\<lambda>t.
     reshape3 beam batch_size (flatten t)))"

text \<open>
  \<open>_compute_logits\<close>: the decoder runs on \<open>inputs.reshape(-1, inputs.size(-1))\<close>, the
  rows of all beams one after the other; the logits are those of the last position,
  as in greedy decoding, a tensor of shape \<open>(rows, 1, vocabulary)\<close>. The decoder's new
  state stays in the function: the caller's \<open>incr_state\<close> is \<open>None\<close> at every step.
\<close>

definition compute_logits ::
  "kgsf \<Rightarrow> nat list list list \<Rightarrow> dec_args \<Rightarrow> incr_state option \<Rightarrow> error + mat list" where
  "compute_logits m inputs a incr =
     (case run_decoder m (concat inputs) a incr of (dialog_latent, incr') \<Rightarrow>
      let dialog_last = map (\<lambda>r. drop (length r - 1) r) dialog_latent;
          entity_latent = map (\<lambda>e. [e]) (entity_emb_attn a);
          word_latent = map (\<lambda>w. [w]) (word_emb_attn a)
      in ebind (cat_last entity_latent word_latent dialog_last) (\<lambda>copy_in.
         Inr (map2 (map2 (sum_logits_at m)) copy_in dialog_last)))"

text \<open>
  \<open>_get_top_k_probabilities\<close>: \<open>softmax(logits).topk(beam, dim=-1)\<close>, the values and
  the indices, each of shape \<open>(rows, 1, beam)\<close>.
\<close>

definition get_top_k_probabilities ::
  "mat list \<Rightarrow> nat \<Rightarrow> error + mat list \<times> nat list list list" where
  "get_top_k_probabilities logits beam =
     ebind (emap (emap (topk beam)) (softmax0 logits)) (\<lambda>tk.
     Inr (map (map fst) tk, map (map snd) tk))"

text \<open>
  The truth value of \<open>sequences[j][n][1]\<close> in the conditional expression: the empty
  Python list is false; a tensor of one entry is true when the entry is not zero, and
  any other tensor raises. The score is a number: a tensor of no dimension.
\<close>

definition truth :: "real tensor option \<Rightarrow> error + bool" where
  "truth v =
     (case v of
        None \<Rightarrow> Inr False
      | Some t \<Rightarrow> (case flatten t of [x] \<Rightarrow> Inr (x \<noteq> 0) | _ \<Rightarrow> Inl RuntimeError))"

definition number :: "'a tensor \<Rightarrow> error + 'a" where
  "number t = (case t of Scalar x \<Rightarrow> Inr x | Tensor ts \<Rightarrow> Inl RuntimeError)"

text \<open>
  One tuple of the list \<open>candidates\<close> of \<open>_update_sequences\<close>, for candidate \<open>n\<close> of
  example \<open>j\<close> and choice \<open>k\<close>. Its three entries are evaluated in order:
  \<^item> \<open>torch.cat((inputs[n][j].reshape(-1), preds[n][j][0][k].reshape(-1)))\<close>;
  \<^item> \<open>torch.cat((sequences[j][n][1], logits[n][j][0].unsqueeze(0)))\<close> if
    \<open>sequences[j][n][1]\<close> is true, else \<open>logits[n][j][0].unsqueeze(0)\<close>;
  \<^item> \<open>sequences[j][n][2] * probs[n][j][0][k]\<close>.
\<close>

definition candidate ::
  "beam_seq \<Rightarrow> nat tensor \<Rightarrow> real tensor \<Rightarrow> real tensor \<Rightarrow> nat tensor \<Rightarrow> nat \<Rightarrow> nat \<Rightarrow> nat
     \<Rightarrow> error + beam_seq" where
  "candidate sq inputs logits probs preds n j k =
     (case sq of (sq_tokens, sq_logits, sq_prob) \<Rightarrow>
      ebind (tindexes inputs [n, j]) (\<lambda>row.
      ebind (tindexes preds [n, j, 0, k]) (\<lambda>pred.
      ebind (tcat (tensor1 (flatten row)) (tensor1 (flatten pred))) (\<lambda>tokens.
      ebind (truth sq_logits) (\<lambda>some_logits.
      ebind (if some_logits
             then ebind (tindexes logits [n, j, 0]) (\<lambda>l. tcat (the sq_logits) (unsqueeze0 l))
             else ebind (tindexes logits [n, j, 0]) (\<lambda>l. Inr (unsqueeze0 l))) (\<lambda>logits'.
      ebind (tindexes probs [n, j, 0, k]) (\<lambda>p.
      ebind (number p) (\<lambda>prob.
      Inr (Some tokens, Some logits', sq_prob * prob)))))))))"

text \<open>
  \<open>_update_sequences\<close>: for every example \<open>j\<close> the candidates for \<open>n\<close> in
  \<open>range(len(sequences[j]))\<close> and \<open>k\<close> in \<open>range(beam)\<close>, sorted by score, greatest
  first and otherwise in their order, and cut to \<open>beam\<close>.
\<close>

definition update_sequences ::
  "beam_seq list list \<Rightarrow> nat list list list \<Rightarrow> mat list \<Rightarrow> mat list \<Rightarrow> nat list list list
     \<Rightarrow> nat \<Rightarrow> nat \<Rightarrow> error + beam_seq list list" where
  "update_sequences sequences inputs logits probs preds beam batch_size =
     emap (\<lambda>j.
       ebind (index_row sequences (int j)) (\<lambda>seq.
       ebind (emap (\<lambda>(n, k).
                ebind (index_row seq (int n)) (\<lambda>sq.
                candidate sq (tensor3 inputs) (tensor3 logits) (tensor3 probs) (tensor3 preds) n j k))
              (List.product [0..<length seq] [0..<beam])) (\<lambda>candidates.
       Inr (take beam (sort_key (\<lambda>c. - snd (snd c)) candidates)))))
     [0..<batch_size]"

text \<open>
  \<open>_is_generation_finished\<close>:
  \<open>((inputs == end).sum(dim=1) > 0).sum().item() == inputs.size(1)\<close>. The sum over
  dimension 1 counts, for each beam and position, the examples with the end token
  there; the count of (beam, position) pairs with at least one is compared with the
  batch size.
\<close>

definition is_generation_finished :: "kgsf \<Rightarrow> nat list list list \<Rightarrow> bool" where
  "is_generation_finished m inputs =
     (sum_list (map (\<lambda>b. length (filter (\<lambda>t. list_ex (\<lambda>row. row ! t = end_token_idx m) b)
                                   [0..<(case b of [] \<Rightarrow> 0 | row # _ \<Rightarrow> length row)]))
                inputs)
      = (case inputs of [] \<Rightarrow> 0 | b # _ \<Rightarrow> length b))"

text \<open>\<open>_get_final_outputs\<close>: the logits and the tokens of the first candidate of every example.\<close>

definition get_final_outputs :: "beam_seq list list \<Rightarrow> error + real tensor \<times> nat tensor" where
  "get_final_outputs sequences =
     ebind (emap (\<lambda>seq. ebind (index_row seq 0) (\<lambda>c. Inr (fst (snd c)))) sequences) (\<lambda>ls.
     ebind (stack ls) (\<lambda>logits.
     ebind (emap (\<lambda>seq. ebind (index_row seq 0) (\<lambda>c. Inr (fst c))) sequences) (\<lambda>ts.
     ebind (stack ts) (\<lambda>inputs.
     Inr (logits, inputs)))))"

text \<open>
  The loop \<open>for i in range(self.response_truncate)\<close> of \<open>decode_beam_search_with_kg\<close>
  with its \<open>break\<close>: the first number is the count of passes left, the second is \<open>i\<close>.
\<close>

fun beam_loop ::
  "kgsf \<Rightarrow> nat \<Rightarrow> nat \<Rightarrow> nat \<Rightarrow> nat \<Rightarrow> dec_args \<Rightarrow> beam_seq list list \<Rightarrow> nat list list list
     \<Rightarrow> incr_state option \<Rightarrow> error + beam_seq list list" where
  "beam_loop m beam batch_size 0 i a sequences inputs incr = Inr sequences"
| "beam_loop m beam batch_size (Suc passes) i a sequences inputs incr =
     ebind (if i = 1 then repeat_inputs a beam else Inr a) (\<lambda>a'.
     ebind (if i \<noteq> 0 then get_inputs_from_sequences sequences beam batch_size
            else Inr inputs) (\<lambda>inputs'.
     ebind (compute_logits m inputs' a' incr) (\<lambda>logits.
     ebind (get_top_k_probabilities logits beam) (\<lambda>(probs, preds).
     ebind (update_sequences sequences inputs' logits probs preds beam batch_size) (\<lambda>sequences'.
     if is_generation_finished m inputs' then Inr sequences'
     else beam_loop m beam batch_size passes (Suc i) a' sequences' inputs' incr)))))"

definition decode_beam_search_with_kg ::
  "kgsf \<Rightarrow> dec_args \<Rightarrow> nat \<Rightarrow> error + real tensor \<times> nat tensor" where
  "decode_beam_search_with_kg m a beam =
     (let batch_size = length (fst (token_encoding a))
      in ebind (initialize_beam_search m batch_size beam) (\<lambda>(sequences, inputs, incr_state).
         ebind (beam_loop m beam batch_size (response_truncate m) 0 a sequences inputs incr_state)
           get_final_outputs))"

subsection \<open>\<open>converse\<close> and \<open>forward\<close>\<close>

text \<open>\<open>converse\<close> returns \<open>(loss, preds)\<close>, or \<open>preds\<close> alone in test mode.\<close>

datatype conv_out = LossPreds real "nat list list" | Preds "nat list list"

text \<open>The tensors \<open>converse\<close> computes from the batch for the decoder.\<close>

definition conv_args ::
  "kgsf \<Rightarrow> nat list list \<Rightarrow> int list list \<Rightarrow> int list list \<Rightarrow> error + dec_args" where
  "conv_args m context_tokens context_entities context_words =
     (let entity_graph_representations = entity_encoder m;
          word_graph_representations = word_encoder m (word_kg_embedding m);
          entity_padding_mask = map (map (\<lambda>e. e = pad_entity_idx m)) context_entities;
          word_padding_mask = map (map (\<lambda>w. w = pad_word_idx m)) context_words
      in ebind (lookup entity_graph_representations context_entities) (\<lambda>entity_representations.
         ebind (lookup word_graph_representations context_words) (\<lambda>word_representations.
         let entity_attn_rep = map2 (entity_self_attn m) entity_representations entity_padding_mask;
             word_attn_rep = map2 (word_self_attn m) word_representations word_padding_mask
         in Inr \<lparr> token_encoding = conv_encoder m context_tokens,
                  entity_reps = map (map (conv_entity_norm m)) entity_representations,
                  entity_emb_attn = map (conv_entity_attn_norm m) entity_attn_rep,
                  entity_mask = entity_padding_mask,
                  word_reps = map (map (conv_word_norm m)) word_representations,
                  word_emb_attn = map (conv_word_attn_norm m) word_attn_rep,
                  word_mask = word_padding_mask \<rparr>)))"

text \<open>
  \<open>self.conv_loss(logits.view(-1, V), response.view(-1))\<close>: the flattened logits and
  targets are paired in order; their counts must agree.
\<close>

definition forced_loss :: "kgsf \<Rightarrow> mat list \<Rightarrow> nat list list \<Rightarrow> error + real" where
  "forced_loss m logits response =
     (if length (concat logits) = length (concat response)
      then Inr (conv_loss m (concat logits) (concat response))
      else Inl ValueError)"

definition converse ::
  "kgsf \<Rightarrow> nat list list \<times> int list list \<times> int list list \<times> nat list list \<Rightarrow> string
     \<Rightarrow> error + conv_out" where
  "converse m batch mode =
     (case batch of (context_tokens, context_entities, context_words, response) \<Rightarrow>
      ebind (conv_args m context_tokens context_entities context_words) (\<lambda>a.
      if mode \<noteq> ''test'' then
        ebind (decode_forced_with_kg m a response) (\<lambda>(logits, preds).
        ebind (forced_loss m logits response) (\<lambda>loss.
        Inr (LossPreds loss preds)))
      else
        ebind (decode_greedy_with_kg m a) (\<lambda>(logits, preds).
        Inr (Preds preds))))"

text \<open>
  A batch is a list of tensors; \<open>forward\<close> hands it to the method of the stage, which
  unpacks it (\<open>ValueError\<close> when the count of tensors is not the method's). With no
  \<open>else\<close> branch, an unknown stage leaves \<open>loss\<close> unbound. The re-homing of the graph
  tensors for several devices changes no value and is left out.
\<close>

datatype batch =
    PretrainBatch "int list list" mat
  | RecBatch "int list list" "int list list" mat "nat list"
  | ConvBatch "nat list list" "int list list" "int list list" "nat list list"

datatype fwd_out = InfoLoss "real option" | RecOut real "real option" mat | ConvOut conv_out

definition forward :: "kgsf \<Rightarrow> batch \<Rightarrow> string \<Rightarrow> string \<Rightarrow> error + fwd_out" where
  "forward m b stage mode =
     (if stage = ''pretrain'' then
        (case b of
           PretrainBatch words entity_labels \<Rightarrow>
             ebind (pretrain_infomax m (words, entity_labels)) (\<lambda>l. Inr (InfoLoss l))
         | _ \<Rightarrow> Inl ValueError)
      else if stage = ''rec'' then
        (case b of
           RecBatch context_entities context_words entities movie \<Rightarrow>
             ebind (recommend m (context_entities, context_words, entities, movie) mode)
               (\<lambda>(rl, il, scores). Inr (RecOut rl il scores))
         | _ \<Rightarrow> Inl ValueError)
      else if stage = ''conv'' then
        (case b of
           ConvBatch context_tokens context_entities context_words response \<Rightarrow>
             ebind (converse m (context_tokens, context_entities, context_words, response) mode)
               (\<lambda>out. Inr (ConvOut out))
         | _ \<Rightarrow> Inl ValueError)
      else Inl UnboundLocalError)"

section \<open>The system: \<open>crslab/system/kgsf.py\<close>\<close>

text \<open>
  What a step does to the world outside the model is kept as a trace of events: a
  gradient step, a call of the evaluator, a metric added. \<open>BaseSystem\<close>
  (\<open>crslab/system/base.py\<close>), with \<open>backward\<close> and \<open>init_optim\<close>, and the evaluator are
  not among the sources.
\<close>

datatype event =
    Backward real
  | RecEvaluate "nat list" nat
  | GenEvaluate "nat list" "nat list"
  | OptimMetric string real
  | GenMetric string real
  | InitOptim
  | ResetMetrics
  | Report

text \<open>
  The state of the system. \<open>self.model\<close> is the model itself, or a wrapper around it
  (\<open>nn.DataParallel\<close>) whose attribute \<open>module\<close> is the model: \<open>wrapped\<close> says which.
  Each learned module being, in the model record, the function it computes at the
  current parameter values, a gradient step gives a new model record. What the
  optimizer computes is not in the sources: \<open>gradient_step\<close> is a parameter of the
  system, a function of the \<open>requires_grad\<close> flags, the model, the batch of the forward
  pass and its loss.
\<close>

record system =
  model :: kgsf
  wrapped :: bool
  item_ids :: "int list"
  requires_grad :: "param \<Rightarrow> bool"
  gradient_step :: "(param \<Rightarrow> bool) \<Rightarrow> kgsf \<Rightarrow> batch \<Rightarrow> real \<Rightarrow> kgsf"
  trace :: "event list"

definition log_event :: "system \<Rightarrow> event \<Rightarrow> system" where
  "log_event sys e = sys\<lparr>trace := trace sys @ [e]\<rparr>"

text \<open>
  Modelled from the spec: \<open>backward\<close> of \<open>BaseSystem\<close>. The spec has "in training mode,
  losses trigger a gradient-update step", and "the optimizer step" as the "single
  writer" of the model parameters: the call is recorded, and the model becomes what the
  system's \<open>gradient_step\<close> makes of it. The loss tensor carries the forward pass that
  computed it; here the batch of that pass is handed over with the loss.
\<close>

definition backward :: "system \<Rightarrow> batch \<Rightarrow> real \<Rightarrow> system" where
  "backward sys b loss =
     log_event (sys\<lparr>model := gradient_step sys (requires_grad sys) (model sys) b loss\<rparr>)
       (Backward loss)"

text \<open>
  The module \<open>md\<close> computes the same function in two models: its parameters have the
  same values.
\<close>

fun same_module :: "module \<Rightarrow> kgsf \<Rightarrow> kgsf \<Rightarrow> bool" where
  "same_module Token_embedding m m' = (token_embedding m' = token_embedding m)"
| "same_module Word_kg_embedding m m' = (word_kg_embedding m' = word_kg_embedding m)"
| "same_module Entity_encoder m m' = (entity_encoder m' = entity_encoder m)"
| "same_module Entity_self_attn m m' = (entity_self_attn m' = entity_self_attn m)"
| "same_module Word_encoder m m' = (word_encoder m' = word_encoder m)"
| "same_module Word_self_attn m m' = (word_self_attn m' = word_self_attn m)"
| "same_module Gate_layer m m' = (gate_layer m' = gate_layer m)"
| "same_module Infomax_norm m m' = (infomax_norm m' = infomax_norm m)"
| "same_module Infomax_bias m m' = (infomax_bias m' = infomax_bias m)"
| "same_module Rec_bias m m' = (rec_bias m' = rec_bias m)"
| "same_module Conv_encoder m m' = (conv_encoder m' = conv_encoder m)"
| "same_module Conv_entity_norm m m' = (conv_entity_norm m' = conv_entity_norm m)"
| "same_module Conv_entity_attn_norm m m' = (conv_entity_attn_norm m' = conv_entity_attn_norm m)"
| "same_module Conv_word_norm m m' = (conv_word_norm m' = conv_word_norm m)"
| "same_module Conv_word_attn_norm m m' = (conv_word_attn_norm m' = conv_word_attn_norm m)"
| "same_module Copy_norm m m' = (copy_norm m' = copy_norm m)"
| "same_module Copy_output m m' = (copy_output m' = copy_output m)"
| "same_module Conv_decoder m m' = (conv_decoder m' = conv_decoder m)"

text \<open>
  Modelled from the spec: what a gradient-update step does to a parameter that is
  not trainable. The spec has the frozen parameters "become non-trainable; only
  conversation-only parameters remain trainable", after being "updated during
  pretrain/recommend phases": a step changes no parameter that does not require a
  gradient, so a module all of whose parameters are such computes after the step what
  it computed before. A step changes the values of parameters, not their number.
\<close>

definition keeps_non_trainable ::
  "((param \<Rightarrow> bool) \<Rightarrow> kgsf \<Rightarrow> batch \<Rightarrow> real \<Rightarrow> kgsf) \<Rightarrow> bool" where
  "keeps_non_trainable step \<longleftrightarrow>
     (\<forall>rg m b loss.
        n_params (step rg m b loss) = n_params m
        \<and> (\<forall>md. (\<forall>p \<in> set (parameters m md). \<not> rg p) \<longrightarrow> same_module md m (step rg m b loss)))"

text \<open>\<open>self.item_ids.index(item)\<close>: the first position of the item, \<open>ValueError\<close> when absent.\<close>

fun index_of :: "int list \<Rightarrow> int \<Rightarrow> error + nat" where
  "index_of [] x = Inl ValueError"
| "index_of (y # ys) x = (if y = x then Inr 0 else ebind (index_of ys x) (\<lambda>i. Inr (Suc i)))"

text \<open>
  \<open>rec_evaluate\<close>: the scores of the item entities, the 50 best ranked, and one call
  of the evaluator per example.
\<close>

fun rec_evaluate_rows :: "system \<Rightarrow> (nat list \<times> nat) list \<Rightarrow> error + system" where
  "rec_evaluate_rows sys [] = Inr sys"
| "rec_evaluate_rows sys ((rec_rank, item) # rest) =
     ebind (index_of (item_ids sys) (int item)) (\<lambda>i.
     rec_evaluate_rows (log_event sys (RecEvaluate rec_rank i)) rest)"

definition rec_evaluate :: "system \<Rightarrow> mat \<Rightarrow> nat list \<Rightarrow> error + system" where
  "rec_evaluate sys rec_predict item_label =
     ebind (emap (\<lambda>row. emap (index_row row) (item_ids sys)) rec_predict) (\<lambda>item_scores.
     ebind (emap (topk 50) item_scores) (\<lambda>tops.
     rec_evaluate_rows sys (zip (map snd tops) item_label)))"

text \<open>
  \<open>conv_evaluate\<close>: one call of the evaluator per (prediction, response) pair. The
  event keeps the token rows; \<open>ind2txt\<close>, which turns them into text, is not among the
  sources.
\<close>

definition conv_evaluate :: "system \<Rightarrow> nat list list \<Rightarrow> nat list list \<Rightarrow> system" where
  "conv_evaluate sys prediction resp =
     fold (\<lambda>(p, r) s. log_event s (GenEvaluate p r)) (zip prediction resp) sys"

definition handle_pretrain_stage :: "system \<Rightarrow> batch \<Rightarrow> string \<Rightarrow> error + system" where
  "handle_pretrain_stage sys b mode =
     ebind (forward (model sys) b ''pretrain'' mode) (\<lambda>out.
     case out of
       InfoLoss None \<Rightarrow> Inr sys
     | InfoLoss (Some info_loss) \<Rightarrow>
         Inr (log_event (backward sys b info_loss) (OptimMetric ''info_loss'' info_loss))
     | _ \<Rightarrow> Inl TypeError)"

text \<open>
  The truth value of \<open>info_loss\<close> in \<open>if info_loss\<close>: \<open>None\<close> is false, and a tensor of
  one number is true when the number is not zero.
\<close>

fun truthy :: "real option \<Rightarrow> bool" where
  "truthy None = False"
| "truthy (Some x) = (x \<noteq> 0)"

text \<open>\<open>loss = rec_loss + (0.025 * info_loss if info_loss else 0)\<close>.\<close>

definition rec_stage_loss :: "real \<Rightarrow> real option \<Rightarrow> real" where
  "rec_stage_loss rec_loss_value info_loss =
     rec_loss_value + (if truthy info_loss then 0.025 * the info_loss else 0)"

definition handle_rec_stage :: "system \<Rightarrow> batch \<Rightarrow> string \<Rightarrow> error + system" where
  "handle_rec_stage sys b mode =
     ebind (forward (model sys) b ''rec'' mode) (\<lambda>out.
     case out of
       RecOut rec_loss_value info_loss rec_predict \<Rightarrow>
         let loss = rec_stage_loss rec_loss_value info_loss in
         ebind (if mode = ''train'' then Inr (backward sys b loss)
                else (case b of
                        RecBatch context_entities context_words entities movie \<Rightarrow>
                          rec_evaluate sys rec_predict movie
                      | _ \<Rightarrow> Inl TypeError)) (\<lambda>sys1.
         let sys2 = log_event sys1 (OptimMetric ''rec_loss'' rec_loss_value)
         in Inr (if truthy info_loss
                 then log_event sys2 (OptimMetric ''info_loss'' (the info_loss))
                 else sys2))
     | _ \<Rightarrow> Inl TypeError)"

definition handle_conv_stage :: "system \<Rightarrow> batch \<Rightarrow> string \<Rightarrow> error + system" where
  "handle_conv_stage sys b mode =
     (if mode = ''test'' then
        ebind (forward (model sys) b ''conv'' mode) (\<lambda>out.
        case (out, b) of
          (ConvOut (Preds pred), ConvBatch context_tokens context_entities context_words resp) \<Rightarrow>
            Inr (conv_evaluate sys pred resp)
        | _ \<Rightarrow> Inl TypeError)
      else
        ebind (forward (model sys) b ''conv'' mode) (\<lambda>out.
        case (out, b) of
          (ConvOut (LossPreds gen_loss pred), ConvBatch context_tokens context_entities context_words resp) \<Rightarrow>
            let sys1 = (if mode = ''train'' then backward sys b gen_loss
                        else conv_evaluate sys pred resp);
                sys2 = log_event sys1 (OptimMetric ''gen_loss'' gen_loss)
            in Inr (log_event sys2 (GenMetric ''ppl'' gen_loss))
        | _ \<Rightarrow> Inl TypeError))"

definition step :: "system \<Rightarrow> batch \<Rightarrow> string \<Rightarrow> string \<Rightarrow> error + system" where
  "step sys b stage mode =
     (if stage = ''pretrain'' then handle_pretrain_stage sys b mode
      else if stage = ''rec'' then handle_rec_stage sys b mode
      else if stage = ''conv'' then handle_conv_stage sys b mode
      else Inl ValueError)"

text \<open>
  A loop \<open>for batch in ...: self.step(batch, stage, mode)\<close>. An exception ends it; the
  result is the system as the last completed step left it and the exception, if any.
\<close>

fun run_steps :: "system \<Rightarrow> batch list \<Rightarrow> string \<Rightarrow> string \<Rightarrow> system \<times> error option" where
  "run_steps sys [] stage mode = (sys, None)"
| "run_steps sys (b # bs) stage mode =
     (case step sys b stage mode of
        Inl e \<Rightarrow> (sys, Some e)
      | Inr sys' \<Rightarrow> run_steps sys' bs stage mode)"

text \<open>
  The epochs of \<open>train_conversation\<close>: training over the training batches, then
  validation over the validation batches.
\<close>

fun conv_epochs :: "nat \<Rightarrow> system \<Rightarrow> batch list \<Rightarrow> batch list \<Rightarrow> system \<times> error option" where
  "conv_epochs 0 sys train valid = (sys, None)"
| "conv_epochs (Suc n) sys train valid =
     (case run_steps (log_event sys ResetMetrics) train ''conv'' ''train'' of
        (sys1, Some e) \<Rightarrow> (sys1, Some e)
      | (sys1, None) \<Rightarrow>
          (case run_steps (log_event (log_event sys1 Report) ResetMetrics) valid ''conv'' ''val'' of
             (sys2, Some e) \<Rightarrow> (sys2, Some e)
           | (sys2, None) \<Rightarrow> conv_epochs n (log_event sys2 Report) train valid))"

text \<open>
  \<open>train_conversation\<close>. \<open>os.environ["CUDA_VISIBLE_DEVICES"]\<close> raises \<open>KeyError\<close> when
  the variable is not set. For the value \<open>'-1'\<close> the call is
  \<open>self.model.freeze_parameters()\<close>, a method the wrapper does not have; for any other
  value it is \<open>self.model.module.freeze_parameters()\<close>, and the model itself has no
  attribute \<open>module\<close>: the call that does not fit raises \<open>AttributeError\<close>. The
  arguments are the variable, the number of epochs and what the three data loaders
  yield.
\<close>

definition train_conversation ::
  "system \<Rightarrow> string option \<Rightarrow> nat \<Rightarrow> batch list \<Rightarrow> batch list \<Rightarrow> batch list
     \<Rightarrow> system \<times> error option" where
  "train_conversation sys cuda_visible_devices conv_epoch train valid test =
     (case cuda_visible_devices of
        None \<Rightarrow> (sys, Some KeyError)
      | Some v \<Rightarrow>
          if (v = ''-1'') = wrapped sys then (sys, Some AttributeError)
          else
            let sys1 = sys\<lparr>requires_grad := freeze_parameters (model sys) (requires_grad sys)\<rparr>;
                sys2 = log_event sys1 InitOptim
            in case conv_epochs conv_epoch sys2 train valid of
                 (sys3, Some e) \<Rightarrow> (sys3, Some e)
               | (sys3, None) \<Rightarrow>
                   (case run_steps (log_event sys3 ResetMetrics) test ''conv'' ''test'' of
                      (sys4, Some e) \<Rightarrow> (sys4, Some e)
                    | (sys4, None) \<Rightarrow> (log_event sys4 Report, None)))"

text \<open>
  For stating what the steps of a phase leave unchanged: \<open>sys'\<close> is \<open>sys\<close> after some
  steps when it holds the model the same way, with the same \<open>requires_grad\<close> flags and
  the same optimizer, its model has the same parameters, every module none of whose
  parameters requires a gradient computes what it computed in \<open>sys\<close>, and its trace
  extends that of \<open>sys\<close>.
\<close>

definition later :: "system \<Rightarrow> system \<Rightarrow> bool" where
  "later sys sys' \<longleftrightarrow>
     wrapped sys' = wrapped sys \<and> requires_grad sys' = requires_grad sys
     \<and> gradient_step sys' = gradient_step sys
     \<and> n_params (model sys') = n_params (model sys)
     \<and> (\<forall>md. (\<forall>p \<in> set (parameters (model sys) md). \<not> requires_grad sys p)
               \<longrightarrow> same_module md (model sys) (model sys'))
     \<and> (\<exists>es. trace sys' = trace sys @ es)"

text \<open>
  A small model and system, for evaluating the methods on concrete inputs: three
  tokens (pad 0, start 1, end 2), three entities, two words, vectors of one number.
  Its decoder's latent vector is \<open>[1]\<close> everywhere, which makes the end token the
  prediction at every position.
\<close>

definition ex_model :: kgsf where
  "ex_model =
     \<lparr> pad_token_idx = 0, start_token_idx = 1, end_token_idx = 2, pad_word_idx = 0,
       pad_entity_idx = 0, response_truncate = 2, n_params = (\<lambda>md. 1),
       token_embedding = [[0], [0], [1]], word_kg_embedding = [[1], [1]],
       entity_encoder = [[1], [1], [1]], word_encoder = (\<lambda>w. w),
       entity_self_attn = (\<lambda>reps msk. [1]), word_self_attn = (\<lambda>reps msk. [1]),
       gate_layer = (\<lambda>e w. [1]), infomax_norm = (\<lambda>v. v), infomax_bias = [0, 0, 0],
       rec_bias = [0, 0, 0],
       conv_encoder = (\<lambda>toks. (map (\<lambda>t. [[1]]) toks, Tensor (map (\<lambda>t. Tensor [Scalar False]) toks))),
       conv_entity_norm = (\<lambda>v. v), conv_entity_attn_norm = (\<lambda>v. v),
       conv_word_norm = (\<lambda>v. v), conv_word_attn_norm = (\<lambda>v. v),
       copy_norm = (\<lambda>v. v), copy_output = (\<lambda>v. [0, 0, 0]),
       copy_mask = [False, False, True],
       conv_decoder = (\<lambda>inputs te wr wm er em incr. (\<lambda>b i. [1], None)),
       cross_entropy = (\<lambda>pairs. real (length pairs)) \<rparr>"

text \<open>
  The same model with a step cap of 0, and with an end token (the pad id 0) that its
  decoder never predicts.
\<close>

definition ex_model_cap0 :: kgsf where
  "ex_model_cap0 = ex_model\<lparr>response_truncate := 0\<rparr>"

definition ex_model_no_end :: kgsf where
  "ex_model_no_end = ex_model\<lparr>end_token_idx := 0\<rparr>"

text \<open>
  A gradient step for the small system: it moves the token embedding and the
  recommendation bias by the loss, each only if one of its parameters requires a
  gradient. The system holds the model itself, and every parameter requires a gradient.
\<close>

definition ex_gradient_step :: "(param \<Rightarrow> bool) \<Rightarrow> kgsf \<Rightarrow> batch \<Rightarrow> real \<Rightarrow> kgsf" where
  "ex_gradient_step rg m b loss =
     m\<lparr>token_embedding :=
         (if list_ex rg (parameters m Token_embedding)
          then map (map (\<lambda>x. x - loss)) (token_embedding m) else token_embedding m),
       rec_bias :=
         (if list_ex rg (parameters m Rec_bias)
          then map (\<lambda>x. x - loss) (rec_bias m) else rec_bias m)\<rparr>"

definition ex_system :: system where
  "ex_system = \<lparr> model = ex_model, wrapped = False, item_ids = [1, 2],
                  requires_grad = (\<lambda>p. True), gradient_step = ex_gradient_step, trace = [] \<rparr>"

text \<open>Decoder arguments for the small model, for a batch of one example.\<close>

definition ex_args :: dec_args where
  "ex_args = \<lparr> token_encoding = ([[[1]]], Tensor [Tensor [Scalar False]]), entity_reps = [[[1]]],
               entity_emb_attn = [[1]], entity_mask = [[False]], word_reps = [[[1]]],
               word_emb_attn = [[1]], word_mask = [[False]] \<rparr>"

section \<open>The data loader: \<open>crslab/data/dataloader/tgredial.py\<close>\<close>

text \<open>
  The fields \<open>TGReDialDataLoader.__init__\<close> sets that the embedded methods read.
  A truncation length is \<open>opt.get(..., None)\<close>: an int or \<open>None\<close>.
\<close>

record loader =
  n_entity :: int
  item_size :: int
  pad_token_idx :: int
  start_token_idx :: int
  end_token_idx :: int
  sent_split_idx :: int
  pad_entity_idx :: int
  pad_word_idx :: int
  context_truncate :: "int option"
  response_truncate :: "int option"
  entity_truncate :: "int option"
  word_truncate :: "int option"
  item_truncate :: "int option"

text \<open>The part of \<open>vocab\<close> and of \<open>opt\<close> that \<open>__init__\<close> reads into these fields.\<close>

record vocab =
  v_n_entity :: int
  v_pad :: int
  v_start :: int
  v_end :: int
  v_sent_split :: "int option"
  v_pad_entity :: int
  v_pad_word :: int

record opt =
  o_context_truncate :: "int option"
  o_response_truncate :: "int option"
  o_entity_truncate :: "int option"
  o_word_truncate :: "int option"
  o_item_truncate :: "int option"

definition init_loader :: "opt \<Rightarrow> vocab \<Rightarrow> loader" where
  "init_loader ops vc =
     \<lparr> n_entity = v_n_entity vc,
       item_size = v_n_entity vc,
       pad_token_idx = v_pad vc,
       start_token_idx = v_start vc,
       end_token_idx = v_end vc,
       sent_split_idx = (case v_sent_split vc of Some s \<Rightarrow> s | None \<Rightarrow> v_end vc),
       pad_entity_idx = v_pad_entity vc,
       pad_word_idx = v_pad_word vc,
       context_truncate = o_context_truncate ops,
       response_truncate = o_response_truncate ops,
       entity_truncate = o_entity_truncate ops,
       word_truncate = o_word_truncate ops,
       item_truncate = o_item_truncate ops \<rparr>"

subsection \<open>\<open>rec_process_fn\<close>\<close>

text \<open>
  The inner loop of \<open>rec_process_fn\<close> for one record: for each \<open>movie\<close> in
  \<open>conv_dict['items']\<close>, a deep copy of the record with \<open>'item'\<close> set to that movie.
\<close>

definition augment :: "conv_dict \<Rightarrow> error + conv_dict list" where
  "augment conv_dict =
     ebind (getitem conv_dict ''items'') (\<lambda>v.
     ebind (iter v) (\<lambda>movies.
     Inr (map (\<lambda>movie. conv_dict(''item'' \<mapsto> movie)) movies)))"

fun rec_process_fn :: "conv_dict list \<Rightarrow> error + conv_dict list" where
  "rec_process_fn [] = Inr []"
| "rec_process_fn (conv_dict # dataset) =
     ebind (augment conv_dict) (\<lambda>xs.
     ebind (rec_process_fn dataset) (\<lambda>ys. Inr (xs @ ys)))"

subsection \<open>\<open>_neg_sample\<close>\<close>

text \<open>
  \<open>random.randint(a, b)\<close> returns an int of the closed range \<open>a..b\<close> and raises
  \<open>ValueError\<close> when the range is empty. The generator is a sequence \<open>rng\<close> of raw
  numbers and a position in it; \<open>randint\<close> maps the raw number at the position into
  the range.
\<close>

definition randint :: "int \<Rightarrow> int \<Rightarrow> nat \<Rightarrow> error + int" where
  "randint a b r = (if b < a then Inl ValueError else Inr (a + int (r mod nat (b - a + 1))))"

text \<open>
  The \<open>while item in item_set\<close> loop. It has no retry bound, so not returning is the
  value \<open>None\<close>. A result is the item and the generator's next position.
\<close>

partial_function (option) neg_sample_loop ::
  "int \<Rightarrow> int set \<Rightarrow> (nat \<Rightarrow> nat) \<Rightarrow> int \<Rightarrow> nat \<Rightarrow> (error + int \<times> nat) option" where
  "neg_sample_loop isz item_set rng item pos =
     (if item \<in> item_set then
        (case randint 1 isz (rng pos) of
           Inl e \<Rightarrow> Some (Inl e)
         | Inr item' \<Rightarrow> neg_sample_loop isz item_set rng item' (Suc pos))
      else Some (Inr (item, pos)))"

definition neg_sample :: "loader \<Rightarrow> int set \<Rightarrow> (nat \<Rightarrow> nat) \<Rightarrow> nat \<Rightarrow> (error + int \<times> nat) option" where
  "neg_sample L item_set rng pos =
     (case randint 1 (item_size L) (rng pos) of
        Inl e \<Rightarrow> Some (Inl e)
      | Inr item \<Rightarrow> neg_sample_loop (item_size L) item_set rng item (Suc pos))"

text \<open>The id the generator draws at position \<open>k\<close> for an item space of size \<open>isz\<close>.\<close>

definition draw :: "int \<Rightarrow> (nat \<Rightarrow> nat) \<Rightarrow> nat \<Rightarrow> int" where
  "draw isz rng k = 1 + int (rng k mod nat isz)"

subsection \<open>Helpers of \<open>crslab/data/dataloader/utils.py\<close>\<close>

text \<open>
  Modelled from the spec: \<open>truncate\<close> of \<open>crslab/data/dataloader/utils.py\<close>, which is
  not among the sources. The spec has sequences "truncated ... to a maximum length",
  from the front (oldest dropped first) when \<open>truncate_tail=False\<close>; a sequence within
  the length is returned as it is, and no length (\<open>None\<close>) means no truncation. The
  spec describes no negative length; here such a length leaves nothing. (The name
  \<open>truncate\<close> is taken by the record package.)
\<close>

definition truncate_vec :: "'a list \<Rightarrow> int option \<Rightarrow> bool \<Rightarrow> 'a list" where
  "truncate_vec vec max_length truncate_tail =
     (case max_length of
        None \<Rightarrow> vec
      | Some n \<Rightarrow>
          if int (length vec) \<le> n then vec
          else if truncate_tail then take (nat n) vec
          else drop (length vec - nat n) vec)"

text \<open>
  Modelled from the spec: \<open>merge_utt\<close> with its default arguments (the utterances
  concatenated) and \<open>add_start_end_token_idx\<close> (the sequence "wrapped with start/end
  markers"), both of \<open>utils.py\<close>.
\<close>

definition merge_utt :: "'a list list \<Rightarrow> 'a list" where
  "merge_utt conversation = concat conversation"

definition add_start_end_token_idx :: "int list \<Rightarrow> int \<Rightarrow> int \<Rightarrow> int list" where
  "add_start_end_token_idx vec start_idx end_idx = start_idx # vec @ [end_idx]"

text \<open>
  \<open>padded_tensor\<close> of \<open>utils.py\<close> is not among the sources. The batch builders take it
  as a parameter: a function of the sequences, the pad id, the padding side \<open>pad_tail\<close>
  and the length \<open>max_len\<close>, each of the two \<open>None\<close> when the caller gives none.

  Modelled from the spec: what \<open>padded_tensor\<close> returns. The spec has a batch as "a
  rectangular tensor bundle" whose sequences are "right- or left-padded to a per-field
  truncation length", the content "flush to one end". So a tensor it returns has one
  row per sequence and all rows of one length, which is \<open>max_len\<close> when the caller gives
  one (of at least 1); each row is its sequence with pad ids after it (\<open>pad_tail\<close> true)
  or before it (\<open>pad_tail\<close> false). The spec does not say which length the function
  takes when it is given none, which side when it is given none, nor when it raises,
  and none of these is assumed.
\<close>

type_synonym padder =
  "int list list \<Rightarrow> int \<Rightarrow> bool option \<Rightarrow> int option \<Rightarrow> error + int list list"

definition spec_padding :: "padder \<Rightarrow> bool" where
  "spec_padding pt \<longleftrightarrow>
     (\<forall>items pad_idx pad_tail max_len out.
        pt items pad_idx pad_tail max_len = Inr out \<longrightarrow>
          length out = length items
          \<and> (\<exists>t. (\<forall>n. max_len = Some n \<and> 1 \<le> n \<longrightarrow> t = nat n)
                 \<and> (\<forall>i < length items.
                        length (out ! i) = t
                        \<and> (pad_tail \<noteq> Some False \<and>
                               out ! i = items ! i @ replicate (t - length (items ! i)) pad_idx
                             \<or> pad_tail \<noteq> Some True \<and>
                               out ! i = replicate (t - length (items ! i)) pad_idx @ items ! i))))"

text \<open>
  One such function, for evaluating the builders on concrete inputs. Given no length
  it takes the longest sequence of the batch, and given no side it pads after the
  sequence; its rows have at least one column; it raises for a sequence longer than
  the row, and for no sequence and no length.
\<close>

definition ex_padded_tensor :: padder where
  "ex_padded_tensor items pad_idx pad_tail max_len =
     (if max_len = None \<and> items = [] then Inl ValueError
      else
        let t = max 1 (case max_len of
                         None \<Rightarrow> foldr max (map length items) 0
                       | Some n \<Rightarrow> nat n)
        in if list_ex (\<lambda>item. t < length item) items then Inl RuntimeError
           else Inr (map (\<lambda>item.
                  if pad_tail = Some False then replicate (t - length item) pad_idx @ item
                  else item @ replicate (t - length item) pad_idx) items))"

subsection \<open>\<open>_finalize_batch\<close>\<close>

record conv_batch =
  enhanced_input_ids :: "int list list"
  enhanced_context_tokens :: "int list list"
  input_ids :: "int list list"
  context_tokens :: "int list list"
  context_entities :: "int list list"
  context_words :: "int list list"
  response :: "int list list"

text \<open>
  \<open>_finalize_batch\<close>. The entity and word sequences are padded with no \<open>max_len\<close>:
  \<open>entity_truncate\<close> and \<open>word_truncate\<close> are not read.
\<close>

definition finalize_batch ::
  "padder \<Rightarrow> loader \<Rightarrow> int list list \<Rightarrow> int list list \<Rightarrow> int list list \<Rightarrow> int list list
     \<Rightarrow> int list list \<Rightarrow> error + conv_batch" where
  "finalize_batch padded_tensor L batch_context_tokens batch_response
       batch_enhanced_context_tokens batch_context_entities batch_context_words =
     ebind (padded_tensor batch_context_tokens (pad_token_idx L) (Some False) (context_truncate L)) (\<lambda>ctx.
     ebind (padded_tensor batch_response (pad_token_idx L) (Some True) (response_truncate L)) (\<lambda>resp.
     ebind (cat_dim1 ctx resp) (\<lambda>ids.
     ebind (padded_tensor batch_enhanced_context_tokens (pad_token_idx L) (Some False) (context_truncate L)) (\<lambda>enh.
     ebind (cat_dim1 enh resp) (\<lambda>enh_ids.
     ebind (padded_tensor batch_context_entities (pad_entity_idx L) (Some False) None) (\<lambda>ents.
     ebind (padded_tensor batch_context_words (pad_word_idx L) (Some False) None) (\<lambda>wrds.
     Inr \<lparr> enhanced_input_ids = enh_ids, enhanced_context_tokens = enh, input_ids = ids,
           context_tokens = ctx, context_entities = ents, context_words = wrds,
           response = resp \<rparr>)))))))"

subsection \<open>\<open>_process_rec_context\<close>, \<open>_process_history\<close> and \<open>rec_batchify\<close>\<close>

text \<open>
  \<open>_process_rec_context\<close>. \<open>utterance.insert(0, self.sent_split_idx)\<close> puts the split
  token before every utterance but the first, in the record's own lists: the function
  returns the utterances as it leaves them in the record, and its result.
  \<open>self.context_truncate - 2\<close> raises \<open>TypeError\<close> when no length is configured, after
  the utterances have been changed. (Each utterance is taken to be a list of its own,
  as in a record read from a file or deep-copied.)
\<close>

definition process_rec_context ::
  "loader \<Rightarrow> int list list \<Rightarrow> int list list \<times> (error + int list)" where
  "process_rec_context L ctx_tokens =
     (let compact_context =
            (case ctx_tokens of [] \<Rightarrow> [] | u # us \<Rightarrow> u # map (\<lambda>utterance. sent_split_idx L # utterance) us)
      in (compact_context,
          case context_truncate L of
            None \<Rightarrow> Inl TypeError
          | Some c \<Rightarrow>
              Inr (add_start_end_token_idx
                     (truncate_vec (merge_utt compact_context) (Some (c - 2)) False)
                     (start_token_idx L) (end_token_idx L))))"

text \<open>
  The loop \<open>for _ in input_ids: sample_negs.append(self._neg_sample(seq_set))\<close>: one
  negative per position, the generator's position threaded through.
\<close>

fun neg_samples :: "loader \<Rightarrow> int set \<Rightarrow> (nat \<Rightarrow> nat) \<Rightarrow> nat \<Rightarrow> nat \<Rightarrow> (error + int list \<times> nat) option" where
  "neg_samples L seq_set rng 0 pos = Some (Inr ([], pos))"
| "neg_samples L seq_set rng (Suc n) pos =
     (case neg_sample L seq_set rng pos of
        None \<Rightarrow> None
      | Some (Inl e) \<Rightarrow> Some (Inl e)
      | Some (Inr (item, pos')) \<Rightarrow>
          (case neg_samples L seq_set rng n pos' of
             None \<Rightarrow> None
           | Some (Inl e) \<Rightarrow> Some (Inl e)
           | Some (Inr (negs, pos'')) \<Rightarrow> Some (Inr (item # negs, pos''))))"

text \<open>\<open>_process_history\<close> with an \<open>item_id\<close>: input ids, target positions, mask, negatives.\<close>

definition process_history ::
  "loader \<Rightarrow> int list \<Rightarrow> int \<Rightarrow> (nat \<Rightarrow> nat) \<Rightarrow> nat
     \<Rightarrow> (error + (int list \<times> int list \<times> int list \<times> int list) \<times> nat) option" where
  "process_history L context_items item_id rng pos =
     (let input_ids = truncate_vec context_items (item_truncate L) False;
          input_mask = replicate (length input_ids) 1;
          seq_set = set input_ids
      in case neg_samples L seq_set rng (length input_ids) pos of
           None \<Rightarrow> None
         | Some (Inl e) \<Rightarrow> Some (Inl e)
         | Some (Inr (sample_negs, pos')) \<Rightarrow>
             Some (Inr ((input_ids, drop 1 input_ids @ [item_id], input_mask, sample_negs), pos')))"

text \<open>Reading a field of a record as an int, a list of ints or a list of such lists.\<close>

fun as_int :: "pyval \<Rightarrow> error + int" where
  "as_int (PInt n) = Inr n"
| "as_int _ = Inl TypeError"

fun as_ints :: "pyval list \<Rightarrow> error + int list" where
  "as_ints [] = Inr []"
| "as_ints (v # vs) = ebind (as_int v) (\<lambda>n. ebind (as_ints vs) (\<lambda>ns. Inr (n # ns)))"

fun as_int_list :: "pyval \<Rightarrow> error + int list" where
  "as_int_list (PList vs) = as_ints vs"
| "as_int_list _ = Inl TypeError"

fun as_int_lists :: "pyval list \<Rightarrow> error + int list list" where
  "as_int_lists [] = Inr []"
| "as_int_lists (v # vs) = ebind (as_int_list v) (\<lambda>n. ebind (as_int_lists vs) (\<lambda>ns. Inr (n # ns)))"

fun as_int_list_list :: "pyval \<Rightarrow> error + int list list" where
  "as_int_list_list (PList vs) = as_int_lists vs"
| "as_int_list_list _ = Inl TypeError"

text \<open>
  The body of the \<open>for conv_dict in batch\<close> loop of \<open>rec_batchify\<close>, up to the history:
  the record as the call of \<open>_process_rec_context\<close> leaves it, and the context, the item
  and the context items.
\<close>

definition of_int_lists :: "int list list \<Rightarrow> pyval" where
  "of_int_lists xss = PList (map (\<lambda>xs. PList (map PInt xs)) xss)"

definition rec_fields ::
  "loader \<Rightarrow> conv_dict \<Rightarrow> conv_dict \<times> (error + (int list \<times> int \<times> int list))" where
  "rec_fields L conv_dict =
     (case ebind (getitem conv_dict ''context_tokens'') as_int_list_list of
        Inl e \<Rightarrow> (conv_dict, Inl e)
      | Inr toks \<Rightarrow>
          (case process_rec_context L toks of (toks', res) \<Rightarrow>
             (conv_dict(''context_tokens'' \<mapsto> of_int_lists toks'),
              ebind res (\<lambda>context.
              ebind (getitem conv_dict ''item'') (\<lambda>v.
              ebind (as_int v) (\<lambda>item_id.
              ebind (getitem conv_dict ''context_items'') (\<lambda>v.
              ebind (as_int_list v) (\<lambda>ctx_items.
              (case conv_dict ''interaction_history'' of
                 None \<Rightarrow> Inr (context, item_id, ctx_items)
               | Some h \<Rightarrow> ebind (as_int_list h) (\<lambda>hist. Inr (context, item_id, hist @ ctx_items)))))))))))"

record rec_lists =
  batch_context :: "int list list"
  batch_movie_id :: "int list"
  batch_input_ids :: "int list list"
  batch_target_pos :: "int list list"
  batch_input_mask :: "int list list"
  batch_sample_negs :: "int list list"

text \<open>
  The \<open>for conv_dict in batch\<close> loop: the records as the loop leaves them, and the lists
  it collects with the generator's next position, or the exception that ends it.
\<close>

fun rec_collect ::
  "loader \<Rightarrow> conv_dict list \<Rightarrow> (nat \<Rightarrow> nat) \<Rightarrow> nat
     \<Rightarrow> (conv_dict list \<times> (error + rec_lists \<times> nat)) option" where
  "rec_collect L [] rng pos =
     Some ([], Inr (\<lparr> batch_context = [], batch_movie_id = [], batch_input_ids = [],
                       batch_target_pos = [], batch_input_mask = [], batch_sample_negs = [] \<rparr>, pos))"
| "rec_collect L (conv_dict # batch) rng pos =
     (case rec_fields L conv_dict of
        (conv_dict', Inl e) \<Rightarrow> Some (conv_dict' # batch, Inl e)
      | (conv_dict', Inr (context, item_id, ctx_items)) \<Rightarrow>
          (case process_history L ctx_items item_id rng pos of
             None \<Rightarrow> None
           | Some (Inl e) \<Rightarrow> Some (conv_dict' # batch, Inl e)
           | Some (Inr ((ids, target_pos, in_mask, negs), pos')) \<Rightarrow>
               (case rec_collect L batch rng pos' of
                  None \<Rightarrow> None
                | Some (batch', Inl e) \<Rightarrow> Some (conv_dict' # batch', Inl e)
                | Some (batch', Inr (r, pos'')) \<Rightarrow>
                    Some (conv_dict' # batch',
                          Inr (\<lparr> batch_context = context # batch_context r,
                                  batch_movie_id = item_id # batch_movie_id r,
                                  batch_input_ids = ids # batch_input_ids r,
                                  batch_target_pos = target_pos # batch_target_pos r,
                                  batch_input_mask = in_mask # batch_input_mask r,
                                  batch_sample_negs = negs # batch_sample_negs r \<rparr>, pos'')))))"

record rec_batch =
  rb_context :: "int list list"
  rb_mask :: "int list list"
  rb_input_ids :: "int list list"
  rb_target_pos :: "int list list"
  rb_input_mask :: "int list list"
  rb_sample_negs :: "int list list"
  rb_movie_id :: "int list"

text \<open>
  The \<open>return\<close> of \<open>rec_batchify\<close>: the collected lists, padded. The context is padded
  with no \<open>pad_tail\<close> given.
\<close>

definition rec_pad :: "padder \<Rightarrow> loader \<Rightarrow> rec_lists \<Rightarrow> error + rec_batch" where
  "rec_pad padded_tensor L r =
     ebind (padded_tensor (batch_context r) (pad_token_idx L) None (context_truncate L)) (\<lambda>ctx.
     ebind (padded_tensor (batch_input_ids r) (pad_token_idx L) (Some False) (item_truncate L)) (\<lambda>ids.
     ebind (padded_tensor (batch_target_pos r) (pad_token_idx L) (Some False) (item_truncate L)) (\<lambda>tgt.
     ebind (padded_tensor (batch_input_mask r) (pad_token_idx L) (Some False) (item_truncate L)) (\<lambda>msk.
     ebind (padded_tensor (batch_sample_negs r) (pad_token_idx L) (Some False) (item_truncate L)) (\<lambda>negs.
     Inr \<lparr> rb_context = ctx,
           rb_mask = map (map (\<lambda>x. if x \<noteq> pad_token_idx L then 1 else 0)) ctx,
           rb_input_ids = ids, rb_target_pos = tgt, rb_input_mask = msk,
           rb_sample_negs = negs, rb_movie_id = batch_movie_id r \<rparr>)))))"

text \<open>
  \<open>rec_batchify\<close>: the records of the batch as the call leaves them, and the batch with
  the generator's next position, or the exception raised.
\<close>

definition rec_batchify ::
  "padder \<Rightarrow> loader \<Rightarrow> conv_dict list \<Rightarrow> (nat \<Rightarrow> nat) \<Rightarrow> nat
     \<Rightarrow> (conv_dict list \<times> (error + rec_batch \<times> nat)) option" where
  "rec_batchify padded_tensor L batch rng pos =
     (case rec_collect L batch rng pos of
        None \<Rightarrow> None
      | Some (batch', Inl e) \<Rightarrow> Some (batch', Inl e)
      | Some (batch', Inr (r, pos')) \<Rightarrow>
          (case rec_pad padded_tensor L r of
             Inl e \<Rightarrow> Some (batch', Inl e)
           | Inr b \<Rightarrow> Some (batch', Inr (b, pos'))))"

text \<open>A small loader, for evaluating the methods on concrete inputs: three entities.\<close>

definition ex_vocab :: vocab where
  "ex_vocab = \<lparr> v_n_entity = 3, v_pad = 0, v_start = 1, v_end = 2, v_sent_split = None,
                 v_pad_entity = 0, v_pad_word = 0 \<rparr>"

definition ex_opt :: opt where
  "ex_opt = \<lparr> o_context_truncate = Some 4, o_response_truncate = Some 4,
               o_entity_truncate = Some 5, o_word_truncate = Some 5,
               o_item_truncate = Some 3 \<rparr>"

text \<open>
  A record of two utterances whose context items are the entities 1 and 2, with the
  target item 2.
\<close>

definition ex_record :: conv_dict where
  "ex_record = [''context_tokens'' \<mapsto> PList [PList [PInt 5], PList [PInt 6]],
                ''item'' \<mapsto> PInt 2, ''context_items'' \<mapsto> PList [PInt 1, PInt 2]]"

section \<open>Raising computations\<close>

lemma ebind_Inr: "ebind r f = Inr y \<Longrightarrow> \<exists>x. r = Inr x \<and> f x = Inr y"
  by (cases r) (simp_all add: ebind_def)

lemma ebind_results: "ebind (Inr x) f = f x" "ebind (Inl e) f = Inl e"
  by (simp_all add: ebind_def)

section \<open>Recommendation augmentation (C6)\<close>

lemma augment_items:
  "d ''items'' = Some (PList ms) \<Longrightarrow> augment d = Inr (map (\<lambda>movie. d(''item'' \<mapsto> movie)) ms)"
  by (simp add: augment_def getitem_def ebind_def)

lemma rec_process_fn_concat:
  "\<forall>d \<in> set ds. \<exists>ms. d ''items'' = Some (PList ms) \<Longrightarrow>
   \<exists>out. rec_process_fn ds = Inr out \<and>
     out = concat (map (\<lambda>d. case d ''items'' of
                               Some (PList ms) \<Rightarrow> map (\<lambda>movie. d(''item'' \<mapsto> movie)) ms
                             | _ \<Rightarrow> []) ds)"
proof (induction ds)
  case Nil
  then show ?case by simp
next
  case (Cons d ds)
  from Cons.prems obtain ms where ms: "d ''items'' = Some (PList ms)" by auto
  from Cons obtain out where out: "rec_process_fn ds = Inr out"
    and eq: "out = concat (map (\<lambda>d. case d ''items'' of
                               Some (PList ms) \<Rightarrow> map (\<lambda>movie. d(''item'' \<mapsto> movie)) ms
                             | _ \<Rightarrow> []) ds)"
    by auto
  show ?case
    using ms out eq by (simp add: augment_items ebind_def)
qed

text \<open>
  C6, as amended. For a record whose \<open>'items'\<close> field lists N items,
  \<open>rec_process_fn\<close> returns exactly N records, in the order of the items; record i
  has the i-th item as its \<open>'item'\<close> and every other field as in the original. The
  targets are pairwise distinct exactly when the items list has no repeated entry.
\<close>

theorem rec_process_fn_expands:
  assumes "d ''items'' = Some (PList ms)"
  shows "\<exists>out. rec_process_fn [d] = Inr out
           \<and> length out = length ms
           \<and> (\<forall>i < length ms. (out ! i) ''item'' = Some (ms ! i)
                  \<and> (\<forall>k. k \<noteq> ''item'' \<longrightarrow> (out ! i) k = d k))
           \<and> (distinct (map (\<lambda>r. r ''item'') out) \<longleftrightarrow> distinct ms)"
proof -
  let ?out = "map (\<lambda>movie. d(''item'' \<mapsto> movie)) ms"
  have run: "rec_process_fn [d] = Inr ?out"
    using assms by (simp add: augment_items ebind_def)
  have tg: "map (\<lambda>r. r ''item'') ?out = map Some ms"
    by simp
  have "distinct (map Some ms) \<longleftrightarrow> distinct ms"
    by (simp add: distinct_map)
  with tg have "distinct (map (\<lambda>r. r ''item'') ?out) \<longleftrightarrow> distinct ms"
    by (simp only:)
  moreover have "\<forall>i < length ms. (?out ! i) ''item'' = Some (ms ! i)
                  \<and> (\<forall>k. k \<noteq> ''item'' \<longrightarrow> (?out ! i) k = d k)"
    by simp
  moreover have "length ?out = length ms"
    by simp
  ultimately show ?thesis
    using run by blast
qed

theorem rec_process_fn_expands_witness:
  "\<exists>out. rec_process_fn [[''items'' \<mapsto> PList [PInt 3, PInt 8], ''response'' \<mapsto> PList [PInt 1]]] = Inr out
     \<and> length out = 2
     \<and> (out ! 0) ''item'' = Some (PInt 3) \<and> (out ! 1) ''item'' = Some (PInt 8)
     \<and> (out ! 1) ''response'' = Some (PList [PInt 1])
     \<and> distinct (map (\<lambda>r. r ''item'') out)"
  using rec_process_fn_expands
    [of "[''items'' \<mapsto> PList [PInt 3, PInt 8], ''response'' \<mapsto> PList [PInt 1]]" "[PInt 3, PInt 8]"]
  by (auto simp: nth_Cons')

text \<open>
  The claim as stated fails when an item is listed twice: the two expanded records have
  the same target.
\<close>

theorem rec_process_fn_targets_not_distinct:
  "\<not> (\<forall>d ms out. d ''items'' = Some (PList ms) \<and> rec_process_fn [d] = Inr out
         \<longrightarrow> distinct (map (\<lambda>r. r ''item'') out))"
proof
  assume h: "\<forall>d ms out. d ''items'' = Some (PList ms) \<and> rec_process_fn [d] = Inr out
         \<longrightarrow> distinct (map (\<lambda>r. r ''item'') out)"
  let ?d = "[''items'' \<mapsto> PList [PInt 5, PInt 5]] :: conv_dict"
  have "rec_process_fn [?d] = Inr (map (\<lambda>movie. ?d(''item'' \<mapsto> movie)) [PInt 5, PInt 5])"
    by (simp add: augment_items ebind_def)
  moreover have "?d ''items'' = Some (PList [PInt 5, PInt 5])"
    by simp
  ultimately have "distinct (map (\<lambda>r. r ''item'') (map (\<lambda>movie. ?d(''item'' \<mapsto> movie)) [PInt 5, PInt 5]))"
    using h by (rule_tac h [rule_format]) (rule conjI)
  then show False by simp
qed

section \<open>Negative sampling (C7)\<close>

lemma neg_sample_loop_stop:
  "item \<notin> S \<Longrightarrow> neg_sample_loop M S rng item pos = Some (Inr (item, pos))"
  by (subst neg_sample_loop.simps) simp

lemma randint_draw: "1 \<le> M \<Longrightarrow> randint 1 M r = Inr (1 + int (r mod nat M))"
  by (simp add: randint_def)

lemma neg_sample_loop_step:
  "1 \<le> M \<Longrightarrow> item \<in> S \<Longrightarrow>
   neg_sample_loop M S rng item pos = neg_sample_loop M S rng (draw M rng pos) (Suc pos)"
  by (subst neg_sample_loop.simps) (simp add: randint_draw draw_def)

lemma draw_range: "1 \<le> M \<Longrightarrow> 1 \<le> draw M rng k \<and> draw M rng k \<le> M"
proof -
  assume M: "1 \<le> M"
  then have "rng k mod nat M < nat M" by simp
  then have "int (rng k mod nat M) < M" using M by linarith
  then show ?thesis by (simp add: draw_def)
qed

text \<open>Once some later draw is outside the set, the loop returns, with an id outside the set.\<close>

lemma neg_sample_loop_returns:
  assumes "1 \<le> M" and "draw M rng k \<notin> S" and "pos \<le> k"
  shows "\<exists>r p. neg_sample_loop M S rng item pos = Some (Inr (r, p)) \<and> r \<notin> S"
  using assms(3)
proof (induction "k - pos" arbitrary: pos item)
  case 0
  then have pk: "pos = k" by simp
  show ?case
  proof (cases "item \<in> S")
    case False
    then show ?thesis by (simp add: neg_sample_loop_stop)
  next
    case True
    then have "neg_sample_loop M S rng item pos = Some (Inr (draw M rng k, Suc k))"
      using assms(1,2) pk by (simp add: neg_sample_loop_step neg_sample_loop_stop)
    then show ?thesis using assms(2) by blast
  qed
next
  case (Suc n)
  show ?case
  proof (cases "item \<in> S")
    case False
    then show ?thesis by (simp add: neg_sample_loop_stop)
  next
    case True
    from Suc have "n = k - Suc pos" and "Suc pos \<le> k" by simp_all
    from Suc.hyps(1) [OF this] obtain r p where
      "neg_sample_loop M S rng (draw M rng pos) (Suc pos) = Some (Inr (r, p))" "r \<notin> S"
      by blast
    then show ?thesis
      using True assms(1) by (auto simp: neg_sample_loop_step)
  qed
qed

text \<open>Whatever the loop returns is the item it started with or one of the draws.\<close>

lemma neg_sample_loop_result:
  assumes run: "neg_sample_loop M S rng item pos = Some (Inr (r, p))"
  shows "r = item \<or> (\<exists>j. r = draw M rng j)"
proof -
  have "\<forall>r' p'. (Inr (r, p) :: error + int \<times> nat) = Inr (r', p') \<longrightarrow>
          r' = item \<or> (\<exists>j. r' = draw M rng j)"
  proof (rule neg_sample_loop.raw_induct
      [where P = "\<lambda>M S rng item pos y. \<forall>r p. y = Inr (r, p) \<longrightarrow> r = item \<or> (\<exists>j. r = draw M rng j)",
        OF _ run])
    fix self M S rng item pos y
    assume IH: "\<And>M S rng item pos y. self M S rng item pos = Some y \<Longrightarrow>
                  \<forall>r p. y = Inr (r, p) \<longrightarrow> r = item \<or> (\<exists>j. r = draw M rng j)"
      and step: "(if item \<in> S
          then case randint 1 M (rng pos) of Inl e \<Rightarrow> Some (Inl e)
               | Inr item' \<Rightarrow> self M S rng item' (Suc pos)
          else Some (Inr (item, pos))) = Some y"
    show "\<forall>r p. y = Inr (r, p) \<longrightarrow> r = item \<or> (\<exists>j. r = draw M rng j)"
    proof (cases "item \<in> S")
      case False
      with step show ?thesis by auto
    next
      case True
      show ?thesis
      proof (cases "1 \<le> M")
        case M: True
        with step True have "self M S rng (draw M rng pos) (Suc pos) = Some y"
          by (simp add: randint_draw draw_def)
        from IH [OF this] show ?thesis by blast
      next
        case False
        with step True have "y = Inl ValueError" by (simp add: randint_def)
        then show ?thesis by simp
      qed
    qed
  qed
  then show ?thesis by simp
qed

lemma item_space_not_covered:
  assumes "finite S" and "int (card S) < M"
  shows "\<exists>v. 1 \<le> v \<and> v \<le> M \<and> v \<notin> S"
proof (rule ccontr)
  assume "\<not> (\<exists>v. 1 \<le> v \<and> v \<le> M \<and> v \<notin> S)"
  then have "{1..M} \<subseteq> S" by auto
  then have "card {1..M} \<le> card S" using assms(1) by (rule card_mono [rotated])
  then show False using assms(2) by simp
qed

text \<open>
  C7. \<open>random.randint\<close> is modelled by a sequence of raw numbers, and a sequence that
  repeats a member of the set for ever makes the loop run for ever; a generator that
  draws uniformly from the item space yields every id of it sooner or later. For an
  item set with fewer members than the item space has ids and such a generator,
  \<open>_neg_sample\<close> returns, and the id it returns is not in the set.
\<close>

theorem neg_sample_terminates:
  assumes "finite item_set" and "int (card item_set) < item_size L"
    and "\<forall>v. 1 \<le> v \<and> v \<le> item_size L \<longrightarrow> (\<exists>k\<ge>pos. draw (item_size L) rng k = v)"
  shows "\<exists>item pos'. neg_sample L item_set rng pos = Some (Inr (item, pos')) \<and> item \<notin> item_set"
proof -
  have M: "1 \<le> item_size L" using assms(2) by linarith
  from item_space_not_covered [OF assms(1,2)] obtain v where
    v: "1 \<le> v" "v \<le> item_size L" "v \<notin> item_set" by blast
  with assms(3) obtain k where k: "pos \<le> k" "draw (item_size L) rng k = v" by blast
  have run: "neg_sample L item_set rng pos =
      neg_sample_loop (item_size L) item_set rng (draw (item_size L) rng pos) (Suc pos)"
    using M by (simp add: neg_sample_def randint_draw draw_def)
  show ?thesis
  proof (cases "pos = k")
    case True
    then show ?thesis using run k v by (simp add: neg_sample_loop_stop)
  next
    case False
    then have "Suc pos \<le> k" using k by simp
    moreover have "draw (item_size L) rng k \<notin> item_set" using k v by simp
    ultimately obtain r p where
      "neg_sample_loop (item_size L) item_set rng (draw (item_size L) rng pos) (Suc pos) = Some (Inr (r, p))"
      "r \<notin> item_set"
      using neg_sample_loop_returns [OF M] by blast
    then show ?thesis using run by simp
  qed
qed

lemma ex_fair:
  "\<forall>v. 1 \<le> v \<and> v \<le> item_size (init_loader ex_opt ex_vocab) \<longrightarrow>
       (\<exists>k\<ge>0. draw (item_size (init_loader ex_opt ex_vocab)) (\<lambda>k. k) k = v)"
proof (intro allI impI)
  fix v :: int
  assume "1 \<le> v \<and> v \<le> item_size (init_loader ex_opt ex_vocab)"
  then have v: "1 \<le> v" "v \<le> 3" by (simp_all add: init_loader_def ex_vocab_def)
  then have "draw 3 (\<lambda>k. k) (nat (v - 1)) = v" by (simp add: draw_def)
  then show "\<exists>k\<ge>0. draw (item_size (init_loader ex_opt ex_vocab)) (\<lambda>k. k) k = v"
    by (auto simp: init_loader_def ex_vocab_def)
qed

theorem neg_sample_terminates_witness:
  "finite {1, 2 :: int} \<and> int (card {1, 2 :: int}) < item_size (init_loader ex_opt ex_vocab)
   \<and> (\<exists>item pos'. neg_sample (init_loader ex_opt ex_vocab) {1, 2} (\<lambda>k. k) 0 = Some (Inr (item, pos'))
         \<and> item \<notin> {1, 2})"
proof -
  have f: "finite {1, 2 :: int}" by simp
  have c: "int (card {1, 2 :: int}) < item_size (init_loader ex_opt ex_vocab)"
    by (simp add: init_loader_def ex_vocab_def)
  from neg_sample_terminates [OF f c ex_fair] f c show ?thesis by blast
qed

text \<open>
  The loop has no retry bound: a generator that first repeats a member of the set
  \<open>n\<close> times makes \<open>_neg_sample\<close> consume more than \<open>n\<close> draws.
\<close>

lemma neg_sample_loop_skips:
  assumes "1 \<le> M" and "item \<in> S" and "\<forall>k. pos \<le> k \<and> k < pos + n \<longrightarrow> draw M rng k \<in> S"
  shows "neg_sample_loop M S rng item pos =
         neg_sample_loop M S rng (draw M rng (pos + n)) (Suc (pos + n))"
  using assms(2,3)
proof (induction n arbitrary: pos item)
  case 0
  then show ?case using assms(1) by (simp add: neg_sample_loop_step)
next
  case (Suc n)
  have "neg_sample_loop M S rng item pos = neg_sample_loop M S rng (draw M rng pos) (Suc pos)"
    using Suc.prems(1) assms(1) by (simp add: neg_sample_loop_step)
  also have "\<dots> = neg_sample_loop M S rng (draw M rng (Suc pos + n)) (Suc (Suc pos + n))"
  proof (rule Suc.IH)
    show "draw M rng pos \<in> S" using Suc.prems(2) by simp
    show "\<forall>k. Suc pos \<le> k \<and> k < Suc pos + n \<longrightarrow> draw M rng k \<in> S"
      using Suc.prems(2) by simp
  qed
  finally show ?case by simp
qed

text \<open>Every id \<open>_neg_sample\<close> returns lies in the closed range \<open>1..item_size\<close>.\<close>

lemma neg_sample_item_size:
  assumes "neg_sample L item_set rng pos = Some (Inr (item, pos'))"
  shows "1 \<le> item \<and> item \<le> item_size L"
proof -
  let ?M = "item_size L"
  have M: "1 \<le> ?M"
  proof (rule ccontr)
    assume "\<not> 1 \<le> ?M"
    then have "neg_sample L item_set rng pos = Some (Inl ValueError)"
      by (simp add: neg_sample_def randint_def)
    with assms show False by simp
  qed
  have run: "neg_sample L item_set rng pos =
      neg_sample_loop ?M item_set rng (draw ?M rng pos) (Suc pos)"
    using M by (simp add: neg_sample_def randint_draw draw_def)
  have "item = draw ?M rng pos \<or> (\<exists>j. item = draw ?M rng j)"
    using assms [unfolded run] by (rule neg_sample_loop_result)
  then show ?thesis
    using draw_range [OF M] by auto
qed

section \<open>Padded batches (C8)\<close>

text \<open>What a padding function as the spec describes it returns.\<close>

lemma spec_padding_out:
  assumes sp: "spec_padding pt" and r: "pt items pad tail ml = Inr out"
  obtains t where "length out = length items"
    and "\<forall>n. ml = Some n \<and> 1 \<le> n \<longrightarrow> t = nat n"
    and "\<forall>i < length items. length (out ! i) = t"
    and "\<forall>i < length items.
           (tail \<noteq> Some False \<and> out ! i = items ! i @ replicate (t - length (items ! i)) pad)
         \<or> (tail \<noteq> Some True \<and> out ! i = replicate (t - length (items ! i)) pad @ items ! i)"
proof -
  note q = sp [unfolded spec_padding_def, rule_format, OF r]
  from q have len: "length out = length items" by (rule conjunct1)
  from q have "\<exists>t. (\<forall>n. ml = Some n \<and> 1 \<le> n \<longrightarrow> t = nat n)
             \<and> (\<forall>i < length items.
                    length (out ! i) = t
                    \<and> (tail \<noteq> Some False \<and>
                           out ! i = items ! i @ replicate (t - length (items ! i)) pad
                         \<or> tail \<noteq> Some True \<and>
                           out ! i = replicate (t - length (items ! i)) pad @ items ! i))"
    by (rule conjunct2)
  then obtain t where t1: "\<forall>n. ml = Some n \<and> 1 \<le> n \<longrightarrow> t = nat n"
    and t2: "\<forall>i < length items.
                    length (out ! i) = t
                    \<and> (tail \<noteq> Some False \<and>
                           out ! i = items ! i @ replicate (t - length (items ! i)) pad
                         \<or> tail \<noteq> Some True \<and>
                           out ! i = replicate (t - length (items ! i)) pad @ items ! i)"
    by (elim exE conjE)
  from t2 have t3: "\<forall>i < length items. length (out ! i) = t" by simp
  from t2 have t4: "\<forall>i < length items.
           (tail \<noteq> Some False \<and> out ! i = items ! i @ replicate (t - length (items ! i)) pad)
         \<or> (tail \<noteq> Some True \<and> out ! i = replicate (t - length (items ! i)) pad @ items ! i)"
    by simp
  from len t1 t3 t4 show thesis by (rule that)
qed






lemma spec_padding_ids:
  assumes "spec_padding pt" and "pt items pad tail ml = Inr out"
  shows "\<forall>row \<in> set out. \<forall>x \<in> set row. x = pad \<or> x \<in> set (concat items)"
proof (intro ballI)
  fix row x assume "row \<in> set out" and x: "x \<in> set row"
  then obtain i where i: "i < length out" "row = out ! i" by (auto simp: in_set_conv_nth)
  from spec_padding_out [OF assms] obtain t where
    t: "length out = length items"
       "\<forall>i < length items.
           (tail \<noteq> Some False \<and> out ! i = items ! i @ replicate (t - length (items ! i)) pad)
         \<or> (tail \<noteq> Some True \<and> out ! i = replicate (t - length (items ! i)) pad @ items ! i)"
    by metis
  from i(1) t(1) have il: "i < length items" by simp
  with t(2) have "out ! i = items ! i @ replicate (t - length (items ! i)) pad
     \<or> out ! i = replicate (t - length (items ! i)) pad @ items ! i" by blast
  with x i(2) have "x = pad \<or> x \<in> set (items ! i)" by auto
  moreover have "set (items ! i) \<subseteq> set (concat items)"
  proof -
    from il have "items ! i \<in> set items" by (rule nth_mem)
    then show ?thesis by auto
  qed
  ultimately show "x = pad \<or> x \<in> set (concat items)" by blast
qed


lemma finalize_batch_parts:
  assumes "finalize_batch pt L ctx resp enh ents wrds = Inr b"
  shows "pt ctx (pad_token_idx L) (Some False) (context_truncate L) = Inr (context_tokens b)"
    and "pt resp (pad_token_idx L) (Some True) (response_truncate L) = Inr (response b)"
    and "cat_dim1 (context_tokens b) (response b) = Inr (input_ids b)"
    and "pt enh (pad_token_idx L) (Some False) (context_truncate L) = Inr (enhanced_context_tokens b)"
    and "cat_dim1 (enhanced_context_tokens b) (response b) = Inr (enhanced_input_ids b)"
    and "pt ents (pad_entity_idx L) (Some False) None = Inr (context_entities b)"
    and "pt wrds (pad_word_idx L) (Some False) None = Inr (context_words b)"
  using assms unfolding finalize_batch_def by (auto dest!: ebind_Inr)


lemma rec_batchify_parts:
  assumes "rec_batchify pt L batch rng pos = Some (batch', Inr (rb, pos'))"
  shows "\<exists>rl :: rec_lists.
           rec_collect L batch rng pos = Some (batch', Inr (rl, pos'))
         \<and> pt (batch_context rl) (pad_token_idx L) None (context_truncate L) = Inr (rb_context rb)
         \<and> pt (batch_input_ids rl) (pad_token_idx L) (Some False) (item_truncate L) = Inr (rb_input_ids rb)
         \<and> pt (batch_target_pos rl) (pad_token_idx L) (Some False) (item_truncate L) = Inr (rb_target_pos rb)
         \<and> pt (batch_input_mask rl) (pad_token_idx L) (Some False) (item_truncate L) = Inr (rb_input_mask rb)
         \<and> pt (batch_sample_negs rl) (pad_token_idx L) (Some False) (item_truncate L) = Inr (rb_sample_negs rb)
         \<and> rb_mask rb = map (map (\<lambda>x. if x \<noteq> pad_token_idx L then 1 else 0)) (rb_context rb)"
proof -
  from assms obtain rl :: rec_lists where
    c: "rec_collect L batch rng pos = Some (batch', Inr (rl, pos'))" and p: "rec_pad pt L rl = Inr rb"
    by (auto simp: rec_batchify_def split: option.splits sum.splits prod.splits)
  from p have "pt (batch_context rl) (pad_token_idx L) None (context_truncate L) = Inr (rb_context rb)
       \<and> pt (batch_input_ids rl) (pad_token_idx L) (Some False) (item_truncate L) = Inr (rb_input_ids rb)
       \<and> pt (batch_target_pos rl) (pad_token_idx L) (Some False) (item_truncate L) = Inr (rb_target_pos rb)
       \<and> pt (batch_input_mask rl) (pad_token_idx L) (Some False) (item_truncate L) = Inr (rb_input_mask rb)
       \<and> pt (batch_sample_negs rl) (pad_token_idx L) (Some False) (item_truncate L) = Inr (rb_sample_negs rb)
       \<and> rb_mask rb = map (map (\<lambda>x. if x \<noteq> pad_token_idx L then 1 else 0)) (rb_context rb)"
    unfolding rec_pad_def by (auto dest!: ebind_Inr)
  with c show ?thesis by (intro exI [of _ rl]) simp
qed


text \<open>The example padding function is one as the spec describes it.\<close>

lemma ex_padded_tensor_out:
  assumes "ex_padded_tensor items pad tail ml = Inr out"
    and "t = max 1 (case ml of None \<Rightarrow> foldr max (map length items) 0 | Some n \<Rightarrow> nat n)"
  shows "out = map (\<lambda>item. if tail = Some False then replicate (t - length item) pad @ item
                             else item @ replicate (t - length item) pad) items"
    and "\<forall>item \<in> set items. length item \<le> t"
proof -
  from assms(1) have ne: "\<not> (ml = None \<and> items = [])"
    by (auto simp: ex_padded_tensor_def)
  from assms(1) ne have fit: "\<not> list_ex (\<lambda>item. t < length item) items"
    unfolding assms(2) by (auto simp: ex_padded_tensor_def Let_def split: if_splits)
  from assms(1) ne fit
  show "out = map (\<lambda>item. if tail = Some False then replicate (t - length item) pad @ item
                             else item @ replicate (t - length item) pad) items"
    unfolding assms(2) by (auto simp: ex_padded_tensor_def Let_def split: if_splits)
  from fit show "\<forall>item \<in> set items. length item \<le> t"
    unfolding list_ex_iff by (meson not_less)
qed

lemma ex_spec_padding: "spec_padding ex_padded_tensor"
  unfolding spec_padding_def
proof (intro allI impI)
  fix items :: "int list list" and pad :: int and tail :: "bool option" and ml :: "int option"
    and out :: "int list list"
  assume r: "ex_padded_tensor items pad tail ml = Inr out"
  define t where "t = max 1 (case ml of None \<Rightarrow> foldr max (map length items) 0 | Some n \<Rightarrow> nat n)"
  note o = ex_padded_tensor_out [OF r t_def]
  have len: "length out = length items" by (simp add: o(1))
  have ml: "\<forall>n. ml = Some n \<and> 1 \<le> n \<longrightarrow> t = nat n" by (auto simp: t_def)
  have rows: "\<forall>i < length items.
      length (out ! i) = t
      \<and> (tail \<noteq> Some False \<and> out ! i = items ! i @ replicate (t - length (items ! i)) pad
         \<or> tail \<noteq> Some True \<and> out ! i = replicate (t - length (items ! i)) pad @ items ! i)"
  proof (intro allI impI)
    fix i assume i: "i < length items"
    then have "items ! i \<in> set items" by (rule nth_mem)
    with o(2) have fit: "length (items ! i) \<le> t" by blast
    from i have oi: "out ! i = (if tail = Some False
                                then replicate (t - length (items ! i)) pad @ items ! i
                                else items ! i @ replicate (t - length (items ! i)) pad)"
      by (simp add: o(1))
    from oi fit show "length (out ! i) = t
      \<and> (tail \<noteq> Some False \<and> out ! i = items ! i @ replicate (t - length (items ! i)) pad
         \<or> tail \<noteq> Some True \<and> out ! i = replicate (t - length (items ! i)) pad @ items ! i)"
      by (cases "tail = Some False") simp_all
  qed
  from len ml rows
  show "length out = length items
        \<and> (\<exists>t. (\<forall>n. ml = Some n \<and> 1 \<le> n \<longrightarrow> t = nat n)
               \<and> (\<forall>i < length items.
                      length (out ! i) = t
                      \<and> (tail \<noteq> Some False \<and>
                             out ! i = items ! i @ replicate (t - length (items ! i)) pad
                           \<or> tail \<noteq> Some True \<and>
                             out ! i = replicate (t - length (items ! i)) pad @ items ! i)))"
    by blast
qed

lemma exL: "init_loader ex_opt ex_vocab =
  \<lparr> n_entity = 3, item_size = 3, pad_token_idx = 0, start_token_idx = 1, end_token_idx = 2,
    sent_split_idx = 2, pad_entity_idx = 0, pad_word_idx = 0, context_truncate = Some 4,
    response_truncate = Some 4, entity_truncate = Some 5, word_truncate = Some 5,
    item_truncate = Some 3 \<rparr>"
  by (simp add: init_loader_def ex_opt_def ex_vocab_def)


lemma ex_context:
  "process_rec_context (init_loader ex_opt ex_vocab) [[5], [6]] = ([[5], [2, 6]], Inr [1, 2, 6, 2])"
  by (simp add: exL process_rec_context_def merge_utt_def truncate_vec_def
      add_start_end_token_idx_def)

lemma ex_fields:
  "rec_fields (init_loader ex_opt ex_vocab) ex_record =
     (ex_record(''context_tokens'' \<mapsto> of_int_lists [[5], [2, 6]]), Inr ([1, 2, 6, 2], 2, [1, 2]))"
  by (simp add: rec_fields_def ex_context ex_record_def getitem_def ebind_def)

lemma ex_hist: "process_history (init_loader ex_opt ex_vocab) [1, 2] 2 (\<lambda>k. k) 0
   = Some (Inr (([1, 2], [2, 2], [1, 1], [3, 3]), 6))"
  by (simp add: exL process_history_def truncate_vec_def neg_sample_def randint_def
      neg_sample_loop.simps Let_def numeral_2_eq_2)

lemma ex_pad: "rec_pad ex_padded_tensor (init_loader ex_opt ex_vocab)
    \<lparr> batch_context = [[1, 2, 6, 2]], batch_movie_id = [2], batch_input_ids = [[1, 2]],
      batch_target_pos = [[2, 2]], batch_input_mask = [[1, 1]], batch_sample_negs = [[3, 3]] \<rparr> =
   Inr \<lparr> rb_context = [[1, 2, 6, 2]], rb_mask = [[1, 1, 1, 1]], rb_input_ids = [[0, 1, 2]],
      rb_target_pos = [[0, 2, 2]], rb_input_mask = [[0, 1, 1]], rb_sample_negs = [[0, 3, 3]],
      rb_movie_id = [2] \<rparr>"
  by (simp add: exL rec_pad_def ex_padded_tensor_def ebind_def numeral_2_eq_2)

lemma ex_rec: "rec_batchify ex_padded_tensor (init_loader ex_opt ex_vocab) [ex_record] (\<lambda>k. k) 0 =
  Some ([ex_record(''context_tokens'' \<mapsto> of_int_lists [[5], [2, 6]])],
        Inr (\<lparr> rb_context = [[1, 2, 6, 2]], rb_mask = [[1, 1, 1, 1]], rb_input_ids = [[0, 1, 2]],
               rb_target_pos = [[0, 2, 2]], rb_input_mask = [[0, 1, 1]],
               rb_sample_negs = [[0, 3, 3]], rb_movie_id = [2] \<rparr>, 6))"
  by (simp add: rec_batchify_def ex_fields ex_hist ex_pad)




section \<open>The ids of a batch (C9)\<close>

lemma neg_samples_range:
  "neg_samples L S rng n pos = Some (Inr (negs, pos'))
     \<Longrightarrow> \<forall>x \<in> set negs. 1 \<le> x \<and> x \<le> item_size L"
proof (induction n arbitrary: pos negs)
  case 0
  then show ?case by simp
next
  case (Suc n)
  from Suc.prems obtain item p1 rest where
    a: "neg_sample L S rng pos = Some (Inr (item, p1))"
    and b: "neg_samples L S rng n p1 = Some (Inr (rest, pos'))"
    and c: "negs = item # rest"
    by (auto split: option.splits sum.splits prod.splits)
  from neg_sample_item_size [OF a] Suc.IH [OF b] c show ?case by simp
qed

lemma process_history_negs:
  assumes "process_history L items item_id rng pos = Some (Inr ((ids, tp, msk, negs), pos'))"
  shows "\<forall>x \<in> set negs. 1 \<le> x \<and> x \<le> item_size L"
proof -
  from assms obtain n S where "neg_samples L S rng n pos = Some (Inr (negs, pos'))"
    by (auto simp: process_history_def Let_def split: option.splits sum.splits prod.splits)
  then show ?thesis by (rule neg_samples_range)
qed

lemma rec_collect_negs:
  "rec_collect L batch rng pos = Some (batch', Inr (rl, pos'))
     \<Longrightarrow> \<forall>x \<in> set (concat (batch_sample_negs rl)). 1 \<le> x \<and> x \<le> item_size L"
proof (induction batch arbitrary: pos batch' rl)
  case Nil
  then show ?case by auto
next
  case (Cons d batch)
  from Cons.prems obtain ctx item_id items ids tp msk negs p1 bt r where
    h: "process_history L items item_id rng pos = Some (Inr ((ids, tp, msk, negs), p1))"
    and c: "rec_collect L batch rng p1 = Some (bt, Inr (r, pos'))"
    and n: "batch_sample_negs rl = negs # batch_sample_negs r"
    by (auto split: option.splits sum.splits prod.splits)
  from process_history_negs [OF h] Cons.IH [OF c] n show ?case by auto
qed

lemma emap_total:
  "\<forall>x \<in> set xs. \<exists>y. f x = Inr y \<Longrightarrow> \<exists>ys. emap f xs = Inr ys"
proof (induction xs)
  case Nil
  then show ?case by simp
next
  case (Cons x xs)
  then obtain y ys where "f x = Inr y" "emap f xs = Inr ys" by auto
  then show ?case by (simp add: ebind_def)
qed

lemma lookup_in_range:
  assumes "\<forall>row \<in> set ids. \<forall>x \<in> set row. 0 \<le> x \<and> x < int (length reps)"
  shows "\<exists>r. lookup reps ids = Inr r"
  unfolding lookup_def
proof (rule emap_total, rule ballI)
  fix row assume "row \<in> set ids"
  with assms have "\<forall>x \<in> set row. \<exists>y. index_row reps x = Inr y"
    by (auto simp: index_row_def Let_def)
  then show "\<exists>y. emap (index_row reps) row = Inr y" by (rule emap_total)
qed

text \<open>
  C9, as amended. An id \<open>_neg_sample\<close> returns lies in the closed range \<open>1..n_entity\<close>
  (\<open>__init__\<close> sets \<open>item_size\<close> to \<open>n_entity\<close>, and \<open>random.randint\<close> includes both ends),
  and so does every id of the negatives tensor of a batch \<open>rec_batchify\<close> returns, unless
  it is the pad id. Every id of the entity and word tensors of a batch
  \<open>_finalize_batch\<close> returns is the pad id or an id of the sequences it was given: the
  loader copies ids and checks no range, so the ids of a batch are below the node
  count when those of the records and the pad ids are. For a batch whose entity and
  word ids are at least 0 and below the count of rows of the entity and of the word
  node-embedding matrix, the indexing in \<open>converse\<close> raises nothing.
\<close>

theorem batch_ids_in_range:
  assumes sp: "spec_padding pt"
  shows "(neg_sample (init_loader ops vc) item_set rng pos = Some (Inr (item, pos'))
            \<longrightarrow> 1 \<le> item \<and> item \<le> n_entity (init_loader ops vc))
       \<and> (rec_batchify pt (init_loader ops vc) batch rng pos = Some (batch', Inr (rb, pos''))
            \<longrightarrow> (\<forall>row \<in> set (rb_sample_negs rb). \<forall>x \<in> set row.
                     x = pad_token_idx (init_loader ops vc)
                     \<or> 1 \<le> x \<and> x \<le> n_entity (init_loader ops vc)))
       \<and> (finalize_batch pt L ctx resp enh ents wrds = Inr b
            \<longrightarrow> (\<forall>row \<in> set (context_entities b). \<forall>x \<in> set row.
                     x = pad_entity_idx L \<or> x \<in> set (concat ents))
              \<and> (\<forall>row \<in> set (context_words b). \<forall>x \<in> set row.
                     x = pad_word_idx L \<or> x \<in> set (concat wrds)))
       \<and> ((\<forall>row \<in> set ce. \<forall>x \<in> set row. 0 \<le> x \<and> x < int (length (entity_encoder m)))
          \<and> (\<forall>row \<in> set cw. \<forall>x \<in> set row.
                 0 \<le> x \<and> x < int (length (word_encoder m (word_kg_embedding m))))
            \<longrightarrow> (\<exists>a. conv_args m ct ce cw = Inr a))"
proof (intro conjI impI)
  have isz: "item_size (init_loader ops vc) = n_entity (init_loader ops vc)"
    by (simp add: init_loader_def)
  {
    assume "neg_sample (init_loader ops vc) item_set rng pos = Some (Inr (item, pos'))"
    from neg_sample_item_size [OF this] show "1 \<le> item" "item \<le> n_entity (init_loader ops vc)"
      by (simp_all add: isz)
  }
  {
    assume rbf: "rec_batchify pt (init_loader ops vc) batch rng pos = Some (batch', Inr (rb, pos''))"
    from rec_batchify_parts [OF rbf] obtain rl :: rec_lists where
      c: "rec_collect (init_loader ops vc) batch rng pos = Some (batch', Inr (rl, pos''))"
      and n: "pt (batch_sample_negs rl) (pad_token_idx (init_loader ops vc)) (Some False)
                (item_truncate (init_loader ops vc)) = Inr (rb_sample_negs rb)"
      by blast
    from rec_collect_negs [OF c]
    have r: "\<forall>x \<in> set (concat (batch_sample_negs rl)). 1 \<le> x \<and> x \<le> n_entity (init_loader ops vc)"
      by (simp only: isz)
    show "\<forall>row \<in> set (rb_sample_negs rb). \<forall>x \<in> set row.
             x = pad_token_idx (init_loader ops vc)
             \<or> 1 \<le> x \<and> x \<le> n_entity (init_loader ops vc)"
      using spec_padding_ids [OF sp n] r by blast
  }
  {
    assume fb: "finalize_batch pt L ctx resp enh ents wrds = Inr b"
    note p = finalize_batch_parts [OF fb]
    show "\<forall>row \<in> set (context_entities b). \<forall>x \<in> set row.
             x = pad_entity_idx L \<or> x \<in> set (concat ents)"
      by (rule spec_padding_ids [OF sp p(6)])
    show "\<forall>row \<in> set (context_words b). \<forall>x \<in> set row.
             x = pad_word_idx L \<or> x \<in> set (concat wrds)"
      by (rule spec_padding_ids [OF sp p(7)])
  }
  {
    assume h: "(\<forall>row \<in> set ce. \<forall>x \<in> set row. 0 \<le> x \<and> x < int (length (entity_encoder m)))
          \<and> (\<forall>row \<in> set cw. \<forall>x \<in> set row.
                 0 \<le> x \<and> x < int (length (word_encoder m (word_kg_embedding m))))"
    from lookup_in_range [of ce "entity_encoder m"] h obtain er where
      er: "lookup (entity_encoder m) ce = Inr er" by blast
    from lookup_in_range [of cw "word_encoder m (word_kg_embedding m)"] h obtain wr where
      wr: "lookup (word_encoder m (word_kg_embedding m)) cw = Inr wr" by blast
    from er wr show "\<exists>a. conv_args m ct ce cw = Inr a"
      by (simp add: conv_args_def Let_def ebind_def)
  }
qed

lemma ex_neg_sample:
  "neg_sample (init_loader ex_opt ex_vocab) {1, 2} (\<lambda>k. k) 0 = Some (Inr (3, 3))"
  by (simp add: neg_sample_def randint_def neg_sample_loop.simps init_loader_def ex_vocab_def)

theorem batch_ids_in_range_witness:
  "spec_padding ex_padded_tensor
   \<and> neg_sample (init_loader ex_opt ex_vocab) {1, 2} (\<lambda>k. k) 0 = Some (Inr (3, 3))
   \<and> (1::int) \<le> 3 \<and> 3 \<le> n_entity (init_loader ex_opt ex_vocab)
   \<and> rec_batchify ex_padded_tensor (init_loader ex_opt ex_vocab) [ex_record] (\<lambda>k. k) 0 =
     Some ([ex_record(''context_tokens'' \<mapsto> of_int_lists [[5], [2, 6]])],
        Inr (\<lparr> rb_context = [[1, 2, 6, 2]], rb_mask = [[1, 1, 1, 1]], rb_input_ids = [[0, 1, 2]],
               rb_target_pos = [[0, 2, 2]], rb_input_mask = [[0, 1, 1]],
               rb_sample_negs = [[0, 3, 3]], rb_movie_id = [2] \<rparr>, 6))
   \<and> pad_token_idx (init_loader ex_opt ex_vocab) = 0
   \<and> finalize_batch ex_padded_tensor (init_loader ex_opt ex_vocab) [[5]] [[1, 6, 2]] [[5]] [[2]] [[1]] =
     Inr \<lparr> enhanced_input_ids = [[0, 0, 0, 5, 1, 6, 2, 0]], enhanced_context_tokens = [[0, 0, 0, 5]],
        input_ids = [[0, 0, 0, 5, 1, 6, 2, 0]], context_tokens = [[0, 0, 0, 5]],
        context_entities = [[2]], context_words = [[1]], response = [[1, 6, 2, 0]] \<rparr>
   \<and> length (entity_encoder ex_model) = 3
   \<and> length (word_encoder ex_model (word_kg_embedding ex_model)) = 2
   \<and> (\<exists>a. conv_args ex_model [[1, 2]] [[2]] [[1]] = Inr a)"
proof -
  have n: "n_entity (init_loader ex_opt ex_vocab) = 3" "pad_token_idx (init_loader ex_opt ex_vocab) = 0"
    by (simp_all add: exL)
  have f: "finalize_batch ex_padded_tensor (init_loader ex_opt ex_vocab)
             [[5]] [[1, 6, 2]] [[5]] [[2]] [[1]] =
     Inr \<lparr> enhanced_input_ids = [[0, 0, 0, 5, 1, 6, 2, 0]], enhanced_context_tokens = [[0, 0, 0, 5]],
        input_ids = [[0, 0, 0, 5, 1, 6, 2, 0]], context_tokens = [[0, 0, 0, 5]],
        context_entities = [[2]], context_words = [[1]], response = [[1, 6, 2, 0]] \<rparr>"
    by (simp add: exL finalize_batch_def ex_padded_tensor_def cat_dim1_def ebind_def numeral_3_eq_3)
  have m: "length (entity_encoder ex_model) = 3"
    "length (word_encoder ex_model (word_kg_embedding ex_model)) = 2"
    by (simp_all add: ex_model_def)
  have r: "(\<forall>row \<in> set [[2 :: int]]. \<forall>x \<in> set row. 0 \<le> x \<and> x < int (length (entity_encoder ex_model)))
          \<and> (\<forall>row \<in> set [[1 :: int]]. \<forall>x \<in> set row.
                 0 \<le> x \<and> x < int (length (word_encoder ex_model (word_kg_embedding ex_model))))"
    by (simp add: m)
  note t = batch_ids_in_range [OF ex_spec_padding,
      of ex_opt ex_vocab "{1, 2}" "\<lambda>k. k" 0 3 3 "[ex_record]" _ _ _ _ _ _ _ _ _ _
         "[[2]]" ex_model "[[1]]" "[[1, 2]]"]
  from t [THEN conjunct2, THEN conjunct2, THEN conjunct2, rule_format, OF r]
  have "\<exists>a. conv_args ex_model [[1, 2]] [[2]] [[1]] = Inr a" .
  with t ex_spec_padding ex_neg_sample ex_rec n f m show ?thesis by simp
qed

text \<open>
  The claim as stated fails. With three entities, negative sampling returns the id 3,
  and the batch \<open>rec_batchify\<close> returns holds it: an id that is not below \<open>n_entity\<close>. And
  the loader checks no id: a record's entity id 7 is in the batch \<open>_finalize_batch\<close>
  returns, and indexing the three rows of the entity matrix by it in \<open>converse\<close> raises.
\<close>

theorem neg_sample_reaches_n_entity:
  "spec_padding ex_padded_tensor
   \<and> neg_sample (init_loader ex_opt ex_vocab) {1, 2} (\<lambda>k. k) 0 = Some (Inr (3, 3))
   \<and> rec_batchify ex_padded_tensor (init_loader ex_opt ex_vocab) [ex_record] (\<lambda>k. k) 0 =
     Some ([ex_record(''context_tokens'' \<mapsto> of_int_lists [[5], [2, 6]])],
        Inr (\<lparr> rb_context = [[1, 2, 6, 2]], rb_mask = [[1, 1, 1, 1]], rb_input_ids = [[0, 1, 2]],
               rb_target_pos = [[0, 2, 2]], rb_input_mask = [[0, 1, 1]],
               rb_sample_negs = [[0, 3, 3]], rb_movie_id = [2] \<rparr>, 6))
   \<and> n_entity (init_loader ex_opt ex_vocab) = 3
   \<and> \<not> (3 < n_entity (init_loader ex_opt ex_vocab))
   \<and> finalize_batch ex_padded_tensor (init_loader ex_opt ex_vocab) [[5]] [[1, 6, 2]] [[5]] [[7]] [[1]] =
     Inr \<lparr> enhanced_input_ids = [[0, 0, 0, 5, 1, 6, 2, 0]], enhanced_context_tokens = [[0, 0, 0, 5]],
        input_ids = [[0, 0, 0, 5, 1, 6, 2, 0]], context_tokens = [[0, 0, 0, 5]],
        context_entities = [[7]], context_words = [[1]], response = [[1, 6, 2, 0]] \<rparr>
   \<and> length (entity_encoder ex_model) = 3
   \<and> conv_args ex_model [[1, 2]] [[7]] [[1]] = Inl IndexError"
proof -
  have f: "finalize_batch ex_padded_tensor (init_loader ex_opt ex_vocab)
             [[5]] [[1, 6, 2]] [[5]] [[7]] [[1]] =
     Inr \<lparr> enhanced_input_ids = [[0, 0, 0, 5, 1, 6, 2, 0]], enhanced_context_tokens = [[0, 0, 0, 5]],
        input_ids = [[0, 0, 0, 5, 1, 6, 2, 0]], context_tokens = [[0, 0, 0, 5]],
        context_entities = [[7]], context_words = [[1]], response = [[1, 6, 2, 0]] \<rparr>"
    by (simp add: exL finalize_batch_def ex_padded_tensor_def cat_dim1_def ebind_def numeral_3_eq_3)
  have c: "conv_args ex_model [[1, 2]] [[7]] [[1]] = Inl IndexError"
    by (simp add: conv_args_def ex_model_def lookup_def index_row_def ebind_def Let_def)
  from ex_spec_padding ex_neg_sample ex_rec f c show ?thesis
    by (simp add: exL ex_model_def)
qed

section \<open>The loss of a recommendation step (C4)\<close>

lemma multi_hot_sum:
  assumes "\<forall>row \<in> set entities. \<forall>x \<in> set row. x = 0 \<or> x = (1::real)"
  shows "sum_all entities = 0 \<longleftrightarrow> (\<forall>row \<in> set entities. 1 \<notin> set row)"
proof -
  have row0: "sum_list row = 0 \<longleftrightarrow> 1 \<notin> set row" if "row \<in> set entities" for row
  proof -
    from assms that have v: "\<forall>x \<in> set row. x = 0 \<or> x = 1" by blast
    then have "\<forall>x \<in> set row. 0 \<le> x" by auto
    then have "sum_list row = 0 \<longleftrightarrow> (\<forall>x \<in> set row. x = 0)"
      by (simp add: sum_list_nonneg_eq_0_iff)
    also have "\<dots> \<longleftrightarrow> 1 \<notin> set row" using v by auto
    finally show ?thesis .
  qed
  have nonneg: "\<forall>s \<in> set (map sum_list entities). 0 \<le> s"
  proof
    fix s assume "s \<in> set (map sum_list entities)"
    then obtain row where r: "row \<in> set entities" "s = sum_list row" by auto
    with assms have "\<forall>x \<in> set row. 0 \<le> x" by fastforce
    with r show "0 \<le> s" by (simp add: sum_list_nonneg)
  qed
  have "sum_all entities = 0 \<longleftrightarrow> (\<forall>s \<in> set (map sum_list entities). s = 0)"
    unfolding sum_all_def using nonneg by (simp only: sum_list_nonneg_eq_0_iff)
  also have "\<dots> \<longleftrightarrow> (\<forall>row \<in> set entities. sum_list row = 0)" by simp
  also have "\<dots> \<longleftrightarrow> (\<forall>row \<in> set entities. 1 \<notin> set row)" using row0 by blast
  finally show ?thesis .
qed

lemma recommend_info_loss:
  assumes "recommend m (ce, cw, entities, movie) mode = Inr (rl, il, scores)"
  shows "(sum_all entities = 0 \<longrightarrow> il = None)
       \<and> (sum_all entities \<noteq> 0 \<longrightarrow> (\<exists>predict. il = Some (infomax_loss predict entities / sum_all entities)))"
  using assms unfolding recommend_def
  by (auto simp: Let_def dest!: ebind_Inr split: if_splits)

lemma rec_evaluate_rows_trace:
  "rec_evaluate_rows sys rows = Inr s \<Longrightarrow>
   \<exists>es. trace s = trace sys @ es \<and> (\<forall>e \<in> set es. \<exists>r i. e = RecEvaluate r i)"
proof (induction rows arbitrary: sys)
  case Nil
  then show ?case by simp
next
  case (Cons row rows)
  obtain rr item where row: "row = (rr, item)" by (cases row)
  from Cons.prems row obtain i where
    "rec_evaluate_rows (log_event sys (RecEvaluate rr i)) rows = Inr s"
    by (auto dest!: ebind_Inr)
  from Cons.IH [OF this] obtain es where
    "trace s = trace (log_event sys (RecEvaluate rr i)) @ es" "\<forall>e \<in> set es. \<exists>r i. e = RecEvaluate r i"
    by blast
  then have "trace s = trace sys @ (RecEvaluate rr i # es)
      \<and> (\<forall>e \<in> set (RecEvaluate rr i # es). \<exists>r i. e = RecEvaluate r i)"
    by (simp add: log_event_def)
  then show ?case by blast
qed

lemma rec_evaluate_trace:
  "rec_evaluate sys p l = Inr s \<Longrightarrow>
   \<exists>es. trace s = trace sys @ es \<and> (\<forall>e \<in> set es. \<exists>r i. e = RecEvaluate r i)"
  unfolding rec_evaluate_def by (auto dest!: ebind_Inr rec_evaluate_rows_trace)

text \<open>
  C4. The entity labels are a multi-hot matrix. For a recommendation step on which
  \<open>recommend\<close> returns: when an entity is mentioned, the label sum is not zero, the
  model returns the infomax loss divided by that sum, and the step's loss is the
  recommendation loss plus 0.025 times it; when none is mentioned, the label sum is
  zero, \<open>recommend\<close> returns \<open>None\<close> for the infomax loss without dividing, the step's
  loss is the recommendation loss alone, and the step adds no \<open>info_loss\<close> metric. In
  training mode that loss is the one the gradient step gets.
\<close>

theorem rec_stage_loss_composition:
  assumes hot: "\<forall>row \<in> set entities. \<forall>x \<in> set row. x = 0 \<or> x = 1"
    and rec: "recommend (model sys) (ce, cw, entities, movie) mode = Inr (rl, il, scores)"
    and run: "handle_rec_stage sys (RecBatch ce cw entities movie) mode = Inr sys'"
  shows "((\<exists>row \<in> set entities. 1 \<in> set row) \<longrightarrow>
            sum_all entities \<noteq> 0
            \<and> (\<exists>predict. il = Some (infomax_loss predict entities / sum_all entities))
            \<and> rec_stage_loss rl il = rl + 0.025 * the il)
       \<and> ((\<forall>row \<in> set entities. 1 \<notin> set row) \<longrightarrow>
            sum_all entities = 0 \<and> il = None \<and> rec_stage_loss rl il = rl
            \<and> (\<forall>x. OptimMetric ''info_loss'' x \<notin> set (drop (length (trace sys)) (trace sys'))))
       \<and> (mode = ''train'' \<longrightarrow>
            take (Suc (length (trace sys))) (trace sys') =
              trace sys @ [Backward (rec_stage_loss rl il)]
            \<and> model sys' = gradient_step sys (requires_grad sys) (model sys)
                             (RecBatch ce cw entities movie) (rec_stage_loss rl il))"
proof -
  note s0 = multi_hot_sum [OF hot]
  note il = recommend_info_loss [OF rec]
  have fwd: "forward (model sys) (RecBatch ce cw entities movie) ''rec'' mode = Inr (RecOut rl il scores)"
    using rec by (simp add: forward_def ebind_def)
  have loss: "rec_stage_loss rl il = rl + 0.025 * the il" if "il \<noteq> None"
  proof (cases "the il = 0")
    case True
    then show ?thesis using that by (auto simp: rec_stage_loss_def)
  next
    case False
    then show ?thesis using that by (auto simp: rec_stage_loss_def)
  qed
  have A: "(\<exists>row \<in> set entities. 1 \<in> set row) \<longrightarrow>
            sum_all entities \<noteq> 0
            \<and> (\<exists>predict. il = Some (infomax_loss predict entities / sum_all entities))
            \<and> rec_stage_loss rl il = rl + 0.025 * the il"
  proof
    assume "\<exists>row \<in> set entities. 1 \<in> set row"
    with s0 have n0: "sum_all entities \<noteq> 0" by blast
    with il obtain predict where p: "il = Some (infomax_loss predict entities / sum_all entities)"
      by blast
    then have "il \<noteq> None" by simp
    from loss [OF this] n0 p
    show "sum_all entities \<noteq> 0
            \<and> (\<exists>predict. il = Some (infomax_loss predict entities / sum_all entities))
            \<and> rec_stage_loss rl il = rl + 0.025 * the il"
      by blast
  qed
  have B: "(\<forall>row \<in> set entities. 1 \<notin> set row) \<longrightarrow>
            sum_all entities = 0 \<and> il = None \<and> rec_stage_loss rl il = rl
            \<and> (\<forall>x. OptimMetric ''info_loss'' x \<notin> set (drop (length (trace sys)) (trace sys')))"
  proof
    assume "\<forall>row \<in> set entities. 1 \<notin> set row"
    with s0 have z: "sum_all entities = 0" by blast
    with il have none: "il = None" by blast
    have l: "rec_stage_loss rl il = rl" by (simp add: none rec_stage_loss_def)
    have "\<forall>x. OptimMetric ''info_loss'' x \<notin> set (drop (length (trace sys)) (trace sys'))"
    proof (cases "mode = ''train''")
      case True
      with run fwd none have "sys' = log_event (backward sys (RecBatch ce cw entities movie) (rec_stage_loss rl il)) (OptimMetric ''rec_loss'' rl)"
        by (simp add: handle_rec_stage_def ebind_def Let_def)
      then show ?thesis by (simp add: log_event_def backward_def)
    next
      case False
      with run fwd none obtain s1 where s1: "rec_evaluate sys scores movie = Inr s1"
        and s': "sys' = log_event s1 (OptimMetric ''rec_loss'' rl)"
        by (auto simp: handle_rec_stage_def ebind_def Let_def split: sum.splits)
      from rec_evaluate_trace [OF s1] obtain es where
        es: "trace s1 = trace sys @ es" "\<forall>e \<in> set es. \<exists>r i. e = RecEvaluate r i" by blast
      then show ?thesis by (auto simp: s' log_event_def)
    qed
    with z none l show "sum_all entities = 0 \<and> il = None \<and> rec_stage_loss rl il = rl
            \<and> (\<forall>x. OptimMetric ''info_loss'' x \<notin> set (drop (length (trace sys)) (trace sys')))"
      by blast
  qed
  have C: "mode = ''train'' \<longrightarrow>
            take (Suc (length (trace sys))) (trace sys') =
              trace sys @ [Backward (rec_stage_loss rl il)]
            \<and> model sys' = gradient_step sys (requires_grad sys) (model sys)
                             (RecBatch ce cw entities movie) (rec_stage_loss rl il)"
  proof
    assume "mode = ''train''"
    with run fwd show "take (Suc (length (trace sys))) (trace sys') =
              trace sys @ [Backward (rec_stage_loss rl il)]
            \<and> model sys' = gradient_step sys (requires_grad sys) (model sys)
                             (RecBatch ce cw entities movie) (rec_stage_loss rl il)"
      by (auto simp: handle_rec_stage_def ebind_def Let_def log_event_def backward_def)
  qed
  from A B C show ?thesis by blast
qed


lemma ex_recommend:
  "recommend (model ex_system) ([[1]], [[1]], [[0, 1, 0]], [2]) ''train'' = Inr (1, Some 2, [[1, 1, 1]])"
  by (simp add: ex_system_def ex_model_def recommend_def lookup_def index_row_def ebind_def
      linear_def dot_def rec_loss_def sum_all_def infomax_loss_def)

lemma ex_handle_rec:
  "handle_rec_stage ex_system (RecBatch [[1]] [[1]] [[0, 1, 0]] [2]) ''train'' =
     Inr (ex_system\<lparr>model := ex_gradient_step (\<lambda>p. True) ex_model
                                   (RecBatch [[1]] [[1]] [[0, 1, 0]] [2]) (1 + 0.025 * 2),
                      trace := [Backward (1 + 0.025 * 2), OptimMetric ''rec_loss'' 1,
                                OptimMetric ''info_loss'' 2]\<rparr>)"
  using ex_recommend
  by (simp add: handle_rec_stage_def forward_def ebind_def rec_stage_loss_def backward_def
      log_event_def ex_system_def Let_def)

theorem rec_stage_loss_composition_witness:
  "recommend (model ex_system) ([[1]], [[1]], [[0, 1, 0]], [2]) ''train'' = Inr (1, Some 2, [[1, 1, 1]])
   \<and> handle_rec_stage ex_system (RecBatch [[1]] [[1]] [[0, 1, 0]] [2]) ''train'' =
       Inr (ex_system\<lparr>model := ex_gradient_step (\<lambda>p. True) ex_model
                                     (RecBatch [[1]] [[1]] [[0, 1, 0]] [2]) (1 + 0.025 * 2),
                        trace := [Backward (1 + 0.025 * 2), OptimMetric ''rec_loss'' 1,
                                  OptimMetric ''info_loss'' 2]\<rparr>)
   \<and> sum_all [[0, 1, 0]] \<noteq> 0
   \<and> rec_stage_loss 1 (Some 2) = 1 + 0.025 * 2"
proof -
  have hot: "\<forall>row \<in> set [[0, 1, 0 :: real]]. \<forall>x \<in> set row. x = 0 \<or> x = 1" by simp
  from rec_stage_loss_composition [OF hot ex_recommend ex_handle_rec] ex_recommend ex_handle_rec
  show ?thesis by simp
qed

section \<open>Forced decoding (C2)\<close>

lemma forced_inputs_nth:
  assumes "b < length resp"
  shows "forced_inputs m resp ! b = kgsf.start_token_idx m # butlast (resp ! b)"
  using assms by (simp add: forced_inputs_def starts_def)

lemma length_forced_inputs: "length (forced_inputs m resp) = length resp"
  by (simp add: forced_inputs_def starts_def)

lemma cat_last_ok:
  assumes "length x = bs" "length y = bs" "length z = bs"
    and "\<forall>b < bs. length (x ! b) = L \<and> length (y ! b) = L \<and> length (z ! b) = L"
  shows "\<exists>c. cat_last x y z = Inr c \<and> length c = bs
           \<and> (\<forall>b < bs. length (c ! b) = L \<and> (\<forall>i < L. c ! b ! i = x ! b ! i @ y ! b ! i @ z ! b ! i))"
proof -
  have "map length x = replicate bs L" "map length y = replicate bs L" "map length z = replicate bs L"
    using assms by (auto intro!: nth_equalityI)
  then have "cat_last x y z =
      Inr (map (\<lambda>(x, y, z). map (\<lambda>(u, v, w). u @ v @ w) (zip x (zip y z))) (zip x (zip y z)))"
    by (simp add: cat_last_def)
  moreover have "length (map (\<lambda>(x, y, z). map (\<lambda>(u, v, w). u @ v @ w) (zip x (zip y z))) (zip x (zip y z))) = bs"
    using assms by simp
  moreover have "\<forall>b < bs. length (map (\<lambda>(x, y, z). map (\<lambda>(u, v, w). u @ v @ w) (zip x (zip y z))) (zip x (zip y z)) ! b) = L
      \<and> (\<forall>i < L. map (\<lambda>(x, y, z). map (\<lambda>(u, v, w). u @ v @ w) (zip x (zip y z))) (zip x (zip y z)) ! b ! i
             = x ! b ! i @ y ! b ! i @ z ! b ! i)"
    using assms by simp
  ultimately show ?thesis by blast
qed


lemma run_decoder_shape:
  "length (fst (run_decoder m inputs a incr)) = length inputs
   \<and> (\<forall>b < length inputs. length (fst (run_decoder m inputs a incr) ! b) = length (inputs ! b)
        \<and> (\<forall>i < length (inputs ! b). fst (run_decoder m inputs a incr) ! b ! i
              = fst (conv_decoder m inputs (token_encoding a) (word_reps a) (word_mask a)
                       (entity_reps a) (entity_mask a) incr) b i))"
  by (simp add: run_decoder_def split: prod.splits)

lemma zip_concat_uniform:
  "length xs = length ys \<Longrightarrow> \<forall>b < length xs. length (xs ! b) = length (ys ! b)
     \<Longrightarrow> zip (concat xs) (concat ys) = concat (map2 zip xs ys)"
proof (induction xs ys rule: list_induct2)
  case Nil
  then show ?case by simp
next
  case (Cons x xs y ys)
  from Cons.prems have "length x = length y" by auto
  moreover from Cons.prems have "\<forall>b < length xs. length (xs ! b) = length (ys ! b)" by auto
  ultimately show ?case using Cons.IH by simp
qed

lemma zip_rows_positions:
  assumes "length xs = bs" "length ys = bs"
    and "\<forall>b < bs. length (xs ! b) = L \<and> length (ys ! b) = L"
  shows "zip (concat xs) (concat ys)
         = concat (map (\<lambda>b. map (\<lambda>i. (xs ! b ! i, ys ! b ! i)) [0..<L]) [0..<bs])"
proof -
  have "map2 zip xs ys = map (\<lambda>b. map (\<lambda>i. (xs ! b ! i, ys ! b ! i)) [0..<L]) [0..<bs]"
  proof (rule nth_equalityI)
    show "length (map2 zip xs ys) = length (map (\<lambda>b. map (\<lambda>i. (xs ! b ! i, ys ! b ! i)) [0..<L]) [0..<bs])"
      using assms by simp
  next
    fix b assume "b < length (map2 zip xs ys)"
    then have b: "b < bs" using assms by simp
    with assms have "zip (xs ! b) (ys ! b) = map (\<lambda>i. (xs ! b ! i, ys ! b ! i)) [0..<L]"
      by (intro nth_equalityI) simp_all
    with b assms show "map2 zip xs ys ! b
        = map (\<lambda>b. map (\<lambda>i. (xs ! b ! i, ys ! b ! i)) [0..<L]) [0..<bs] ! b"
      by simp
  qed
  moreover have "zip (concat xs) (concat ys) = concat (map2 zip xs ys)"
    using assms by (intro zip_concat_uniform) simp_all
  ultimately show ?thesis by simp
qed

lemma filter_targets_count:
  "length (filter (\<lambda>(l, t). Q t) ps) = length (filter Q (map snd ps))"
  by (induction ps) auto

text \<open>
  C2, as amended. For a response tensor of \<open>bs\<close> rows and \<open>L\<close> columns with \<open>L\<close> at
  least 1 (and pooled entity and word vectors for the same \<open>bs\<close> examples), forced
  decoding returns; its decoder input is START followed by the response without its
  last token; it gives \<open>L\<close> logit positions per example; the logit at position \<open>i\<close> is
  computed from the decoder's latent vector at position \<open>i\<close> of that input, where the
  input holds response token \<open>i - 1\<close> (START for \<open>i = 0\<close>); and the prediction there is
  its argmax. The loss \<open>converse\<close> returns with these predictions, in every mode but
  \<open>'test'\<close>, is the cross entropy that pairs the logit at position \<open>i\<close> of example \<open>b\<close> with
  response token \<open>i\<close> of example \<open>b\<close>, over the positions whose response token is not the
  pad id: these are the supervised positions, as many as the responses hold tokens
  other than the pad id.
\<close>

theorem forced_decoding_alignment:
  assumes bs: "length resp = bs" and L: "\<forall>r \<in> set resp. length r = L" and pos: "0 < L"
    and ea: "length (entity_emb_attn a) = bs" and wa: "length (word_emb_attn a) = bs"
  shows "\<exists>logits preds supervised.
       decode_forced_with_kg m a resp = Inr (logits, preds)
     \<and> length logits = bs \<and> length preds = bs
     \<and> (\<forall>b < bs. length (forced_inputs m resp ! b) = L
            \<and> length (logits ! b) = L \<and> length (preds ! b) = L
            \<and> (\<forall>i < L.
                  forced_inputs m resp ! b ! i
                    = (if i = 0 then kgsf.start_token_idx m else resp ! b ! (i - 1))
                  \<and> logits ! b ! i
                    = (let d = fst (conv_decoder m (forced_inputs m resp) (token_encoding a)
                                     (word_reps a) (word_mask a) (entity_reps a) (entity_mask a) None) b i
                       in sum_logits_at m (entity_emb_attn a ! b @ word_emb_attn a ! b @ d) d)
                  \<and> preds ! b ! i = argmax (logits ! b ! i)))
     \<and> supervised = filter (\<lambda>(l, t). t \<noteq> kgsf.pad_token_idx m)
                       (concat (map (\<lambda>b. map (\<lambda>i. (logits ! b ! i, resp ! b ! i)) [0..<L]) [0..<bs]))
     \<and> length supervised = length (filter (\<lambda>t. t \<noteq> kgsf.pad_token_idx m) (concat resp))
     \<and> forced_loss m logits resp = Inr (cross_entropy m supervised)
     \<and> (\<forall>ct ce cw mode. conv_args m ct ce cw = Inr a \<and> mode \<noteq> ''test'' \<longrightarrow>
            converse m (ct, ce, cw, resp) mode = Inr (LossPreds (cross_entropy m supervised) preds))"
proof -
  let ?inputs = "forced_inputs m resp"
  let ?f = "fst (conv_decoder m ?inputs (token_encoding a) (word_reps a) (word_mask a)
                   (entity_reps a) (entity_mask a) None)"
  let ?dl = "fst (run_decoder m ?inputs a None)"
  define seq_len where "seq_len = (case resp of [] \<Rightarrow> 0 | r # _ \<Rightarrow> length r)"
  have rowL: "\<forall>b < bs. length (resp ! b) = L" using bs L by auto
  have seq: "bs = 0 \<or> seq_len = L"
    using bs L by (cases resp) (auto simp: seq_len_def)
  have inL: "\<forall>b < bs. length (?inputs ! b) = L"
    using rowL bs pos by (auto simp: forced_inputs_nth)
  have inb: "length ?inputs = bs" using bs by (simp add: length_forced_inputs)
  have in_nth: "\<forall>b < bs. \<forall>i < L. ?inputs ! b ! i
                    = (if i = 0 then kgsf.start_token_idx m else resp ! b ! (i - 1))"
  proof (intro allI impI)
    fix b i assume b: "b < bs" and i: "i < L"
    then have "length (resp ! b) = L" using rowL by blast
    with b i bs show "?inputs ! b ! i = (if i = 0 then kgsf.start_token_idx m else resp ! b ! (i - 1))"
      by (cases i) (auto simp: forced_inputs_nth nth_butlast)
  qed
  have dl: "length ?dl = bs" "\<forall>b < bs. length (?dl ! b) = L"
    "\<forall>b < bs. \<forall>i < L. ?dl ! b ! i = ?f b i"
    using run_decoder_shape [of m ?inputs a None] inb inL by auto
  let ?el = "map (replicate seq_len) (entity_emb_attn a)"
  let ?wl = "map (replicate seq_len) (word_emb_attn a)"
  have shp: "\<forall>b < bs. length (?el ! b) = L \<and> length (?wl ! b) = L \<and> length (?dl ! b) = L"
    using seq ea wa dl by auto
  from cat_last_ok [of ?el bs ?wl ?dl L] ea wa dl(1) shp obtain c where
    c: "cat_last ?el ?wl ?dl = Inr c" "length c = bs"
       "\<forall>b < bs. length (c ! b) = L \<and> (\<forall>i < L. c ! b ! i = ?el ! b ! i @ ?wl ! b ! i @ ?dl ! b ! i)"
    by auto
  define logits where "logits = map2 (map2 (sum_logits_at m)) c ?dl"
  define preds where "preds = map (map argmax) logits"
  have run: "decode_forced_with_kg m a resp = Inr (logits, preds)"
    using c(1) by (simp add: decode_forced_with_kg_def Let_def seq_len_def ebind_def logits_def preds_def)
  have lb: "length logits = bs" using c(2) dl(1) by (simp add: logits_def)
  have lrow: "\<forall>b < bs. logits ! b = map2 (sum_logits_at m) (c ! b) (?dl ! b)"
    using c(2) dl(1) by (simp add: logits_def)
  have lL: "\<forall>b < bs. length (logits ! b) = L"
    using lrow c(3) dl(2) by simp
  have lval: "\<forall>b < bs. \<forall>i < L. logits ! b ! i
      = sum_logits_at m (entity_emb_attn a ! b @ word_emb_attn a ! b @ ?f b i) (?f b i)"
  proof (intro allI impI)
    fix b i assume b: "b < bs" and i: "i < L"
    from seq b have sl: "seq_len = L" by auto
    from b i c(3) have ci: "c ! b ! i = ?el ! b ! i @ ?wl ! b ! i @ ?dl ! b ! i" by blast
    from b i lrow c(3) dl(2) have "logits ! b ! i = sum_logits_at m (c ! b ! i) (?dl ! b ! i)"
      by simp
    with ci b i ea wa dl(3) sl show "logits ! b ! i
      = sum_logits_at m (entity_emb_attn a ! b @ word_emb_attn a ! b @ ?f b i) (?f b i)"
      by simp
  qed
  have pb: "length preds = bs" using lb by (simp add: preds_def)
  have pL: "\<forall>b < bs. length (preds ! b) = L" using lb lL by (simp add: preds_def)
  have pval: "\<forall>b < bs. \<forall>i < L. preds ! b ! i = argmax (logits ! b ! i)"
    using lb lL by (simp add: preds_def)
  let ?pairs = "concat (map (\<lambda>b. map (\<lambda>i. (logits ! b ! i, resp ! b ! i)) [0..<L]) [0..<bs])"
  define supervised where
    "supervised = filter (\<lambda>(l, t). t \<noteq> kgsf.pad_token_idx m) ?pairs"
  have rows: "\<forall>b < bs. length (logits ! b) = L \<and> length (resp ! b) = L"
    using lL rowL by blast
  have zp: "zip (concat logits) (concat resp) = ?pairs"
    using zip_rows_positions [OF lb bs rows] .
  have len: "length (concat logits) = length (concat resp)"
  proof -
    have "map length logits = replicate bs L" "map length resp = replicate bs L"
      using lb lL bs rowL by (auto intro!: nth_equalityI)
    then show ?thesis by (simp add: length_concat)
  qed
  have sp: "map snd ?pairs = concat resp"
    using zp [symmetric] len by simp
  have cnt: "length supervised = length (filter (\<lambda>t. t \<noteq> kgsf.pad_token_idx m) (concat resp))"
    unfolding supervised_def by (simp only: filter_targets_count sp)
  have loss: "forced_loss m logits resp = Inr (cross_entropy m supervised)"
    using len by (simp add: forced_loss_def conv_loss_def zp supervised_def)
  have conv: "\<forall>ct ce cw mode. conv_args m ct ce cw = Inr a \<and> mode \<noteq> ''test'' \<longrightarrow>
            converse m (ct, ce, cw, resp) mode = Inr (LossPreds (cross_entropy m supervised) preds)"
    using run loss by (simp add: converse_def ebind_def)
  have pos_facts: "\<forall>b < bs. length (forced_inputs m resp ! b) = L
            \<and> length (logits ! b) = L \<and> length (preds ! b) = L
            \<and> (\<forall>i < L.
                  forced_inputs m resp ! b ! i
                    = (if i = 0 then kgsf.start_token_idx m else resp ! b ! (i - 1))
                  \<and> logits ! b ! i
                    = (let d = fst (conv_decoder m (forced_inputs m resp) (token_encoding a)
                                     (word_reps a) (word_mask a) (entity_reps a) (entity_mask a) None) b i
                       in sum_logits_at m (entity_emb_attn a ! b @ word_emb_attn a ! b @ d) d)
                  \<and> preds ! b ! i = argmax (logits ! b ! i))"
    using inL lL pL in_nth lval pval by (simp add: Let_def)
  from run lb pb pos_facts supervised_def cnt loss conv show ?thesis
    by (intro exI [of _ logits] exI [of _ preds] exI [of _ supervised] conjI)
qed

section \<open>Greedy decoding (C3)\<close>

text \<open>A pass of the loop on well-shaped arguments: it succeeds and appends one token per row.\<close>

lemma greedy_step_ok:
  assumes "length inputs = bs" and "\<forall>row \<in> set inputs. length row = Suc k"
    and "length (entity_emb_attn a) = bs" and "length (word_emb_attn a) = bs"
  shows "\<exists>sl inputs' incr'. greedy_step m a inputs incr = Inr (sl, inputs', incr')
           \<and> length inputs' = bs \<and> (\<forall>row \<in> set inputs'. length row = Suc (Suc k))
           \<and> length sl = bs \<and> (\<forall>row \<in> set sl. length row = 1)"
proof -
  obtain dl incr' where rd: "run_decoder m inputs a incr = (dl, incr')" by (cases "run_decoder m inputs a incr")
  from run_decoder_shape [of m inputs a incr] rd assms(1,2)
  have dl: "length dl = bs" "\<forall>b < bs. length (dl ! b) = Suc k" by auto
  let ?last = "map (\<lambda>r. drop (length r - 1) r) dl"
  let ?db = "map (\<lambda>e. [e]) (entity_emb_attn a)"
  let ?cl = "map (\<lambda>w. [w]) (word_emb_attn a)"
  have shp: "\<forall>b < bs. length (?db ! b) = 1 \<and> length (?cl ! b) = 1 \<and> length (?last ! b) = 1"
    using assms(3,4) dl by auto
  from cat_last_ok [of ?db bs ?cl ?last 1] assms(3,4) dl(1) shp obtain c where
    c: "cat_last ?db ?cl ?last = Inr c" "length c = bs" "\<forall>b < bs. length (c ! b) = 1"
    by auto
  define sl where "sl = map2 (map2 (sum_logits_at m)) c ?last"
  define preds where "preds = map (map argmax) sl"
  have slb: "length sl = bs" using c(2) dl(1) by (simp add: sl_def)
  have slrow: "\<forall>b < bs. length (sl ! b) = 1"
    using c(2,3) dl by (simp add: sl_def)
  have pb: "length preds = bs" using slb by (simp add: preds_def)
  have prow: "\<forall>b < bs. length (preds ! b) = 1" using slb slrow by (simp add: preds_def)
  define inputs' where "inputs' = map (\<lambda>(x, y). x @ y) (zip inputs preds)"
  have cat: "cat_dim1 inputs preds = Inr inputs'"
    using assms(1) pb by (simp add: cat_dim1_def inputs'_def)
  have run: "greedy_step m a inputs incr = Inr (sl, inputs', incr')"
    using rd c(1) cat by (simp add: greedy_step_def ebind_def Let_def sl_def preds_def)
  have ib: "length inputs' = bs" using assms(1) pb by (simp add: inputs'_def)
  have irow: "\<forall>row \<in> set inputs'. length row = Suc (Suc k)"
  proof
    fix row assume "row \<in> set inputs'"
    then obtain b where b: "b < bs" "row = inputs' ! b" using ib by (auto simp: in_set_conv_nth)
    then have "row = inputs ! b @ preds ! b" using assms(1) pb by (simp add: inputs'_def)
    moreover have "length (inputs ! b) = Suc k" using assms(1,2) b by auto
    ultimately show "length row = Suc (Suc k)" using prow b by simp
  qed
  have "\<forall>row \<in> set sl. length row = 1" using slb slrow by (auto simp: in_set_conv_nth)
  with run ib irow slb show ?thesis by blast
qed


lemma greedy_prefix_1:
  "greedy_step m a inputs incr = Inr (sl, inputs', incr') \<Longrightarrow>
   greedy_prefix m a (Suc j) inputs incr = greedy_prefix m a j inputs' incr'"
  by (simp add: ebind_def)

lemma greedy_loop_stops:
  assumes ea: "length (entity_emb_attn a) = bs" and wa: "length (word_emb_attn a) = bs"
  shows "length inputs = bs \<Longrightarrow> \<forall>row \<in> set inputs. length row = Suc k \<Longrightarrow> 0 < n \<Longrightarrow>
     \<exists>j sls inputs'. greedy_loop m a bs n inputs incr logits = Inr (logits @ sls, inputs')
       \<and> 1 \<le> j \<and> j \<le> n \<and> length sls = j
       \<and> (\<forall>sl \<in> set sls. length sl = bs \<and> (\<forall>row \<in> set sl. length row = 1))
       \<and> (\<exists>st. greedy_prefix m a j inputs incr = Inr (inputs', st))
       \<and> (finished m bs inputs' \<or> j = n)
       \<and> (\<forall>i. 1 \<le> i \<and> i < j \<longrightarrow>
              (\<exists>inp st. greedy_prefix m a i inputs incr = Inr (inp, st) \<and> \<not> finished m bs inp))
       \<and> length inputs' = bs \<and> (\<forall>row \<in> set inputs'. length row = Suc k + j)"
proof (induction n arbitrary: inputs incr logits k)
  case 0
  then show ?case by simp
next
  case (Suc n)
  from greedy_step_ok [OF Suc.prems(1,2) ea wa, of m incr] obtain sl inp1 st1 where
    st: "greedy_step m a inputs incr = Inr (sl, inp1, st1)"
    and i1: "length inp1 = bs" "\<forall>row \<in> set inp1. length row = Suc (Suc k)"
    and s1: "length sl = bs" "\<forall>row \<in> set sl. length row = 1"
    by blast
  have p1: "greedy_prefix m a (Suc 0) inputs incr = Inr (inp1, st1)"
    using st by (simp add: ebind_def)
  show ?case
  proof (cases "finished m bs inp1 \<or> n = 0")
    case True
    then have run: "greedy_loop m a bs (Suc n) inputs incr logits = Inr (logits @ [sl], inp1)"
      using st by (auto simp: ebind_def)
    show ?thesis
      apply (rule exI [of _ "Suc 0"])
      apply (rule exI [of _ "[sl]"])
      apply (rule exI [of _ inp1])
      using run True p1 i1 s1 by auto
  next
    case False
    then have nf: "\<not> finished m bs inp1" and n0: "0 < n" by auto
    from Suc.IH [OF i1 n0, of st1 "logits @ [sl]"] obtain j sls inputs' where
      run': "greedy_loop m a bs n inp1 st1 (logits @ [sl]) = Inr ((logits @ [sl]) @ sls, inputs')"
      and j: "1 \<le> j" "j \<le> n" "length sls = j"
      and shp: "\<forall>sl \<in> set sls. length sl = bs \<and> (\<forall>row \<in> set sl. length row = 1)"
      and pre: "\<exists>st. greedy_prefix m a j inp1 st1 = Inr (inputs', st)"
      and fin: "finished m bs inputs' \<or> j = n"
      and before: "\<forall>i. 1 \<le> i \<and> i < j \<longrightarrow>
              (\<exists>inp st. greedy_prefix m a i inp1 st1 = Inr (inp, st) \<and> \<not> finished m bs inp)"
      and out: "length inputs' = bs" "\<forall>row \<in> set inputs'. length row = Suc (Suc k) + j"
      by blast
    have run: "greedy_loop m a bs (Suc n) inputs incr logits = Inr (logits @ (sl # sls), inputs')"
      using st nf run' by (simp add: ebind_def)
    have pre': "\<exists>st. greedy_prefix m a (Suc j) inputs incr = Inr (inputs', st)"
      using pre greedy_prefix_1 [OF st] by simp
    have before': "\<forall>i. 1 \<le> i \<and> i < Suc j \<longrightarrow>
              (\<exists>inp st. greedy_prefix m a i inputs incr = Inr (inp, st) \<and> \<not> finished m bs inp)"
    proof (intro allI impI)
      fix i assume i: "1 \<le> i \<and> i < Suc j"
      show "\<exists>inp st. greedy_prefix m a i inputs incr = Inr (inp, st) \<and> \<not> finished m bs inp"
      proof (cases "i = 1")
        case True
        then show ?thesis using p1 nf by auto
      next
        case False
        with i obtain i' where i': "i = Suc i'" "1 \<le> i'" "i' < j" by (cases i) auto
        with before obtain inp st where
          "greedy_prefix m a i' inp1 st1 = Inr (inp, st)" "\<not> finished m bs inp" by blast
        then show ?thesis using greedy_prefix_1 [OF st] i' by auto
      qed
    qed
    show ?thesis
      apply (rule exI [of _ "Suc j"])
      apply (rule exI [of _ "sl # sls"])
      apply (rule exI [of _ inputs'])
      using run j shp s1 pre' fin before' out by auto
  qed
qed

lemma cat_steps_ok:
  assumes "sls \<noteq> []" and "\<forall>sl \<in> set sls. length sl = bs \<and> (\<forall>row \<in> set sl. length row = 1)"
  shows "\<exists>out. cat_steps sls = Inr out \<and> length out = bs \<and> (\<forall>row \<in> set out. length row = length sls)"
proof -
  obtain s ss where sls: "sls = s # ss" using assms(1) by (cases sls) auto
  have len: "length s = bs" "list_all (\<lambda>s'. length s' = length s) ss"
    using assms(2) sls by (auto simp: list_all_iff)
  let ?out = "map (\<lambda>b. concat (map (\<lambda>s'. s' ! b) sls)) [0..<bs]"
  have run: "cat_steps sls = Inr ?out"
    using len sls by (simp add: cat_steps_def)
  have row: "length (concat (map (\<lambda>s'. s' ! b) sls)) = length sls" if "b < bs" for b
  proof -
    have "\<forall>s' \<in> set sls. length (s' ! b) = 1"
      using assms(2) that by (metis nth_mem)
    then have "map length (map (\<lambda>s'. s' ! b) sls) = replicate (length sls) 1"
      by (auto intro!: nth_equalityI)
    then show ?thesis by (simp add: length_concat sum_list_replicate)
  qed
  have "\<forall>row \<in> set ?out. length row = length sls" using row by auto
  with run show ?thesis by (intro exI [of _ ?out]) simp
qed

text \<open>
  C3, as amended. With a step cap \<open>response_truncate\<close> of at least 1 (and pooled
  entity and word vectors for the examples of the batch), greedy decoding returns
  without an error, after \<open>n\<close> passes of its loop, where \<open>n\<close> is the first pass after
  which every row of the inputs holds the end token, or the cap when there is no such
  pass before it. It returns the inputs as they are after \<open>n\<close> passes, \<open>n + 1\<close> tokens a
  row, and \<open>n\<close> logit positions a row.
\<close>

theorem greedy_decoding_stops:
  assumes R: "0 < kgsf.response_truncate m"
    and ea: "length (entity_emb_attn a) = length (fst (token_encoding a))"
    and wa: "length (word_emb_attn a) = length (fst (token_encoding a))"
  shows "\<exists>n logits inputs. decode_greedy_with_kg m a = Inr (logits, inputs)
      \<and> 1 \<le> n \<and> n \<le> kgsf.response_truncate m
      \<and> (\<exists>st. greedy_prefix m a n (starts m (length (fst (token_encoding a)))) None = Inr (inputs, st))
      \<and> (finished m (length (fst (token_encoding a))) inputs \<or> n = kgsf.response_truncate m)
      \<and> (\<forall>i. 1 \<le> i \<and> i < n \<longrightarrow>
             (\<exists>inp st. greedy_prefix m a i (starts m (length (fst (token_encoding a)))) None = Inr (inp, st)
                \<and> \<not> finished m (length (fst (token_encoding a))) inp))
      \<and> length inputs = length (fst (token_encoding a))
      \<and> (\<forall>row \<in> set inputs. length row = Suc n)
      \<and> length logits = length (fst (token_encoding a))
      \<and> (\<forall>row \<in> set logits. length row = n)"
proof -
  let ?bs = "length (fst (token_encoding a))"
  let ?R = "kgsf.response_truncate m"
  have s0: "length (starts m ?bs) = ?bs" "\<forall>row \<in> set (starts m ?bs). length row = Suc 0"
    by (simp_all add: starts_def)
  from greedy_loop_stops [OF ea wa s0 R, of m None "[]"] obtain j sls inputs' where
    run: "greedy_loop m a ?bs ?R (starts m ?bs) None [] = Inr (sls, inputs')"
    and j: "1 \<le> j" "j \<le> ?R" "length sls = j"
    and shp: "\<forall>sl \<in> set sls. length sl = ?bs \<and> (\<forall>row \<in> set sl. length row = 1)"
    and pre: "\<exists>st. greedy_prefix m a j (starts m ?bs) None = Inr (inputs', st)"
    and fin: "finished m ?bs inputs' \<or> j = ?R"
    and before: "\<forall>i. 1 \<le> i \<and> i < j \<longrightarrow>
              (\<exists>inp st. greedy_prefix m a i (starts m ?bs) None = Inr (inp, st) \<and> \<not> finished m ?bs inp)"
    and out: "length inputs' = ?bs" "\<forall>row \<in> set inputs'. length row = Suc 0 + j"
    by auto
  have "sls \<noteq> []" using j by auto
  from cat_steps_ok [OF this shp] obtain lg where
    lg: "cat_steps sls = Inr lg" "length lg = ?bs" "\<forall>row \<in> set lg. length row = length sls"
    by blast
  have dec: "decode_greedy_with_kg m a = Inr (lg, inputs')"
    using run lg(1) by (simp add: decode_greedy_with_kg_def Let_def ebind_def)
  show ?thesis
    apply (rule exI [of _ j])
    apply (rule exI [of _ lg])
    apply (rule exI [of _ inputs'])
    using dec j pre fin before out lg by auto
qed

section \<open>Decoding with the small model\<close>

lemma ex_start: "kgsf.start_token_idx ex_model = 1" "kgsf.end_token_idx ex_model = 2"
  "kgsf.response_truncate ex_model = 2"
  by (simp_all add: ex_model_def)

lemma ex_sum_logits: "sum_logits_at ex_model [1, 1, 1] [1] = [0, 0, 1]"
  by (simp add: sum_logits_at_def ex_model_def linear0_def dot_def)

lemma ex_run_decoder:
  "run_decoder ex_model inputs a incr = (map (\<lambda>r. replicate (length r) [1]) inputs, None)"
proof -
  have "map (\<lambda>b. map (\<lambda>i. [1::real]) [0..<length (inputs ! b)]) [0..<length inputs]
        = map (\<lambda>r. replicate (length r) [1]) inputs"
    by (rule nth_equalityI) (simp_all add: map_replicate_const)
  then show ?thesis by (simp add: run_decoder_def ex_model_def)
qed

lemma ex_forced:
  "decode_forced_with_kg ex_model ex_args [[1, 2, 0]] =
     Inr ([[[0, 0, 1], [0, 0, 1], [0, 0, 1]]], [[2, 2, 2]])"
  by (simp add: decode_forced_with_kg_def forced_inputs_def starts_def ex_run_decoder
      cat_last_def ebind_def ex_sum_logits argmax_def ex_args_def numeral_3_eq_3 Let_def ex_start)

lemma ex_forced_empty:
  "decode_forced_with_kg ex_model ex_args [[]] = Inl RuntimeError"
  by (simp add: decode_forced_with_kg_def forced_inputs_def starts_def ex_run_decoder
      cat_last_def ebind_def ex_args_def Let_def ex_start)

lemma drop_replicate_last: "drop n (x # replicate n x) = [x]"
  by (induction n) simp_all

lemma ex_greedy_step:
  "greedy_step ex_model ex_args [x # row] incr = Inr ([[[0, 0, 1]]], [x # row @ [2]], None)"
  by (simp add: greedy_step_def ex_run_decoder cat_last_def ebind_def ex_sum_logits argmax_def
      ex_args_def cat_dim1_def Let_def drop_replicate_last)


lemma ex_bs: "length (fst (token_encoding ex_args)) = 1"
  by (simp add: ex_args_def)

lemma ex_no_end: "kgsf.start_token_idx ex_model_no_end = 1" "kgsf.end_token_idx ex_model_no_end = 0"
  "kgsf.response_truncate ex_model_no_end = 2"
  by (simp_all add: ex_model_no_end_def ex_model_def)

lemma ex_cap0: "kgsf.response_truncate ex_model_cap0 = 0"
  by (simp add: ex_model_cap0_def)

lemma ex_greedy:
  "decode_greedy_with_kg ex_model ex_args = Inr ([[[0, 0, 1]]], [[1, 2]])"
  by (simp add: decode_greedy_with_kg_def ex_start starts_def numeral_2_eq_2 ex_greedy_step
      ebind_def finished_def cat_steps_def ex_bs)

lemma ex_greedy_prefix:
  "greedy_prefix ex_model ex_args 1 (starts ex_model 1) None = Inr ([[1, 2]], None)"
  by (simp add: starts_def ex_start ex_greedy_step ebind_def)

lemma ex_greedy_cap0:
  "decode_greedy_with_kg ex_model_cap0 ex_args = Inl RuntimeError"
  by (simp add: decode_greedy_with_kg_def ebind_def cat_steps_def ex_cap0)

lemma ex_greedy_step_no_end:
  "greedy_step ex_model_no_end ex_args [x # row] incr = Inr ([[[0, 0, 1]]], [x # row @ [2]], None)"
  using ex_greedy_step [of x row incr]
  by (simp add: greedy_step_def run_decoder_def sum_logits_at_def ex_model_no_end_def)

lemma ex_greedy_no_end:
  "decode_greedy_with_kg ex_model_no_end ex_args = Inr ([[[0, 0, 1], [0, 0, 1]]], [[1, 2, 2]])"
  by (simp add: decode_greedy_with_kg_def starts_def numeral_2_eq_2 ex_greedy_step_no_end
      ebind_def finished_def cat_steps_def ex_bs ex_no_end)



lemma ex_conv_args: "conv_args ex_model [[1, 2]] [[1]] [[1]] = Inr ex_args"
  by (simp add: conv_args_def ex_model_def lookup_def index_row_def ebind_def ex_args_def Let_def)

lemma ex_forced_loss:
  "forced_loss ex_model [[[0, 0, 1], [0, 0, 1], [0, 0, 1]]] [[1, 2, 0]] = Inr 2"
  by (simp add: forced_loss_def conv_loss_def ex_model_def)

lemma ex_converse_val:
  "mode \<noteq> ''test'' \<Longrightarrow>
   converse ex_model ([[1, 2]], [[1]], [[1]], [[1, 2, 0]]) mode = Inr (LossPreds 2 [[2, 2, 2]])"
  by (simp add: converse_def ex_conv_args [simplified] ebind_def ex_forced [simplified]
      ex_forced_loss [simplified])

lemma ex_converse_test:
  "converse ex_model ([[1, 2]], [[1]], [[1]], [[1, 2, 0]]) ''test'' = Inr (Preds [[1, 2]])"
  by (simp add: converse_def ex_conv_args [simplified] ebind_def ex_greedy [simplified])

theorem forced_decoding_alignment_witness:
  "length [[1, 2, 0 :: nat]] = 1 \<and> length [1, 2, 0 :: nat] = 3 \<and> 0 < (3 :: nat)
   \<and> length (entity_emb_attn ex_args) = 1 \<and> length (word_emb_attn ex_args) = 1
   \<and> decode_forced_with_kg ex_model ex_args [[1, 2, 0]] =
        Inr ([[[0, 0, 1], [0, 0, 1], [0, 0, 1]]], [[2, 2, 2]])
   \<and> forced_inputs ex_model [[1, 2, 0]] = [[1, 1, 2]]
   \<and> kgsf.pad_token_idx ex_model = 0
   \<and> filter (\<lambda>(l, t). t \<noteq> kgsf.pad_token_idx ex_model)
         [([0, 0, 1 :: real], 1 :: nat), ([0, 0, 1], 2), ([0, 0, 1], 0)]
       = [([0, 0, 1], 1), ([0, 0, 1], 2)]
   \<and> forced_loss ex_model [[[0, 0, 1], [0, 0, 1], [0, 0, 1]]] [[1, 2, 0]] = Inr 2
   \<and> conv_args ex_model [[1, 2]] [[1]] [[1]] = Inr ex_args
   \<and> converse ex_model ([[1, 2]], [[1]], [[1]], [[1, 2, 0]]) ''train''
       = Inr (LossPreds 2 [[2, 2, 2]])"
proof -
  have h: "length [[1, 2, 0 :: nat]] = 1" "\<forall>r \<in> set [[1, 2, 0 :: nat]]. length r = 3" "0 < (3 :: nat)"
    "length (entity_emb_attn ex_args) = 1" "length (word_emb_attn ex_args) = 1"
    by (simp_all add: ex_args_def)
  have p: "kgsf.pad_token_idx ex_model = 0" by (simp add: ex_model_def)
  from forced_decoding_alignment [OF h, of ex_model] ex_forced h p ex_forced_loss ex_conv_args
    ex_converse_val [of "''train''"]
  show ?thesis
    by (simp add: forced_inputs_def starts_def ex_start)
qed

text \<open>
  The claim as stated fails for a response of length 0: the decoder input is START
  alone, one position, the pooled vectors are expanded to no position, and joining
  them raises.
\<close>

theorem forced_decoding_empty_response:
  "length [[] :: nat list] = 1 \<and> length (entity_emb_attn ex_args) = 1
   \<and> length (word_emb_attn ex_args) = 1
   \<and> forced_inputs ex_model [[]] = [[1]]
   \<and> decode_forced_with_kg ex_model ex_args [[]] = Inl RuntimeError"
  using ex_forced_empty by (simp add: ex_args_def forced_inputs_def starts_def ex_start)

theorem greedy_decoding_stops_witness:
  "0 < kgsf.response_truncate ex_model
   \<and> length (entity_emb_attn ex_args) = length (fst (token_encoding ex_args))
   \<and> length (word_emb_attn ex_args) = length (fst (token_encoding ex_args))
   \<and> decode_greedy_with_kg ex_model ex_args = Inr ([[[0, 0, 1]]], [[1, 2]])
   \<and> greedy_prefix ex_model ex_args 1 (starts ex_model 1) None = Inr ([[1, 2]], None)
   \<and> finished ex_model 1 [[1, 2]]"
proof -
  have h: "0 < kgsf.response_truncate ex_model"
    "length (entity_emb_attn ex_args) = length (fst (token_encoding ex_args))"
    "length (word_emb_attn ex_args) = length (fst (token_encoding ex_args))"
    by (simp_all add: ex_args_def ex_start)
  from greedy_decoding_stops [OF h] h ex_greedy ex_greedy_prefix show ?thesis
    by (simp add: finished_def ex_start)
qed

text \<open>
  The claim as stated fails for a step cap of 0: the loop makes no pass, and
  \<open>torch.cat\<close> of the empty list of logits raises.
\<close>

theorem greedy_decoding_cap_zero:
  "kgsf.response_truncate ex_model_cap0 = 0
   \<and> decode_greedy_with_kg ex_model_cap0 ex_args = Inl RuntimeError"
  using ex_greedy_cap0 ex_cap0 by simp

section \<open>Beam search (C1)\<close>

lemma tindex_error: "tindex t i = Inl e \<Longrightarrow> e = IndexError"
  by (cases t) (simp_all split: if_splits)

lemma tindexes_error: "tindexes t idx = Inl e \<Longrightarrow> e = IndexError"
proof (induction idx arbitrary: t)
  case Nil
  then show ?case by simp
next
  case (Cons i rest)
  show ?case
  proof (cases "tindex t i")
    case (Inl e')
    with Cons.prems tindex_error [OF Inl] show ?thesis by (simp add: ebind_def)
  next
    case (Inr u)
    with Cons.prems have "tindexes u rest = Inl e" by (simp add: ebind_def)
    then show ?thesis by (rule Cons.IH)
  qed
qed

lemma tindexes_tensor3: "tindexes (tensor3 x) [n, j, l, k] = Inl IndexError"
  by (simp add: tensor3_def tensor2_def tensor1_def ebind_def)

lemma candidate_raises:
  "candidate sq inputs logits probs (tensor3 preds) n j k = Inl IndexError"
proof (cases "tindexes inputs [n, j]")
  case (Inl e)
  from tindexes_error [OF Inl] Inl show ?thesis
    by (simp add: candidate_def ebind_def split: prod.splits)
next
  case (Inr row)
  then show ?thesis
    by (simp add: candidate_def ebind_def tindexes_tensor3 del: tindexes.simps split: prod.splits)
qed

lemma emap_first_raises: "f x = Inl e \<Longrightarrow> emap f (x # xs) = Inl e"
  by (simp add: ebind_def)

lemma update_sequences_raises:
  assumes "0 < batch_size" "0 < beam"
  shows "update_sequences (replicate batch_size [c]) inputs logits probs preds beam batch_size
         = Inl IndexError"
proof -
  from assms have bs: "[0..<batch_size] = 0 # [1..<batch_size]"
    and bm: "[0..<beam] = 0 # [1..<beam]"
    by (simp_all add: upt_conv_Cons)
  have r: "index_row (replicate batch_size [c]) (int 0) = Inr [c]"
    using assms by (simp add: index_row_def)
  have p: "List.product [0..<length [c]] [0..<beam] = (0, 0) # map (Pair 0) [1..<beam]"
    using bm by simp
  have c: "emap (\<lambda>(n, k). ebind (index_row [c] (int n)) (\<lambda>sq.
                   candidate sq (tensor3 inputs) (tensor3 logits) (tensor3 probs) (tensor3 preds) n 0 k))
             (List.product [0..<length [c]] [0..<beam]) = Inl IndexError"
    unfolding p by (rule emap_first_raises) (simp add: index_row_def ebind_def candidate_raises)
  show ?thesis
    unfolding update_sequences_def bs
    by (rule emap_first_raises) (simp only: r ebind_results c)
qed

lemma stack_None: "stack (replicate (Suc n) None) = Inl TypeError"
  by (simp add: stack_def)

lemma emap_replicate: "f x = Inr y \<Longrightarrow> emap f (replicate n x) = Inr (replicate n y)"
  by (induction n) (simp_all add: ebind_def)

lemma get_final_outputs_initial:
  "0 < batch_size \<Longrightarrow> get_final_outputs (replicate batch_size [(None, None, 1)]) = Inl TypeError"
proof -
  assume "0 < batch_size"
  then obtain n where n: "batch_size = Suc n" by (cases batch_size) simp_all
  have "emap (\<lambda>seq. ebind (index_row seq 0) (\<lambda>c. Inr (fst (snd c))))
          (replicate batch_size [(None :: nat tensor option, None :: real tensor option, 1 :: real)])
        = Inr (replicate batch_size None)"
    by (rule emap_replicate) (simp add: index_row_def ebind_def)
  then show ?thesis
    unfolding get_final_outputs_def n by (simp only: ebind_def sum.case stack_None)
qed

lemma beam_loop_first_pass:
  assumes "0 < batch_size" "0 < beam"
  shows "\<exists>e. beam_loop m beam batch_size (Suc passes) 0 a (replicate batch_size [c]) inputs incr
              = Inl e"
proof (cases "compute_logits m inputs a incr")
  case (Inl e)
  then show ?thesis by (simp add: ebind_def)
next
  case logits: (Inr logits)
  show ?thesis
  proof (cases "get_top_k_probabilities logits beam")
    case (Inl e)
    with logits show ?thesis by (simp add: ebind_def)
  next
    case (Inr tk)
    obtain probs preds where tk: "tk = (probs, preds)" by (cases tk)
    from logits Inr tk update_sequences_raises [OF assms] show ?thesis
      by (simp add: ebind_def)
  qed
qed

lemma beam_search_raises_any_beam:
  assumes "0 < beam"
  shows "\<exists>e. decode_beam_search_with_kg m a beam = Inl e"
proof (cases "length (fst (token_encoding a)) = 0")
  case True
  then show ?thesis
    by (simp add: decode_beam_search_with_kg_def initialize_beam_search_def ebind_def)
next
  case False
  then have bs: "0 < length (fst (token_encoding a))" by simp
  let ?bs = "length (fst (token_encoding a))"
  have init: "initialize_beam_search m ?bs beam
              = Inr (replicate ?bs [(None, None, 1)], [starts m ?bs], None)"
    using bs by (simp add: initialize_beam_search_def)
  show ?thesis
  proof (cases "kgsf.response_truncate m")
    case 0
    with init get_final_outputs_initial [OF bs] show ?thesis
      by (simp add: decode_beam_search_with_kg_def ebind_def)
  next
    case (Suc passes)
    from beam_loop_first_pass [OF bs assms, of m passes a "(None, None, 1)" "[starts m ?bs]" None]
    obtain e where "beam_loop m beam ?bs (Suc passes) 0 a (replicate ?bs [(None, None, 1)])
                      [starts m ?bs] None = Inl e" by blast
    with init Suc show ?thesis
      by (simp add: decode_beam_search_with_kg_def ebind_def del: beam_loop.simps)
  qed
qed

text \<open>
  C1 does not hold of the code: beam search with \<open>beam = 1\<close> returns no token sequence
  at all. For every model state and every input, \<open>decode_beam_search_with_kg\<close> raises.
  For a batch of size 0 the reshape of the start tokens raises; with a step cap of 0
  \<open>torch.stack\<close> is given the empty Python lists of the initial candidates; otherwise
  the first pass of the loop, if the decoder's tensors fit, reaches
  \<open>_update_sequences\<close>, whose \<open>preds[n][j][0][k]\<close> indexes the three-dimensional
  tensor \<open>preds\<close> four times.
\<close>

theorem beam_search_raises: "\<exists>e. decode_beam_search_with_kg m a 1 = Inl e"
  by (rule beam_search_raises_any_beam) simp

text \<open>
  The small model on a batch of one example: greedy decoding returns the tokens
  START, END; beam search with \<open>beam = 1\<close> computes the same logits for the first step
  and raises \<open>IndexError\<close> where it reads the prediction.
\<close>

lemma ex_compute_logits:
  "compute_logits ex_model [[[1]]] ex_args None = Inr [[[0, 0, 1]]]"
  by (simp add: compute_logits_def ex_run_decoder cat_last_def ebind_def ex_sum_logits
      ex_args_def Let_def)

lemma ex_top_k:
  "get_top_k_probabilities [[[0, 0, 1]]] 1 = Inr ([[[1]]], [[[0]]])"
  by (simp add: get_top_k_probabilities_def softmax0_def topk_def ebind_def numeral_3_eq_3 Let_def)

lemma ex_beam:
  "decode_beam_search_with_kg ex_model ex_args 1 = Inl IndexError"
proof -
  have u: "update_sequences (replicate 1 [(None, None, 1)]) [[[1]]] [[[0, 0, 1]]] [[[1]]] [[[0]]] 1 1
        = Inl IndexError"
    by (rule update_sequences_raises) simp_all
  show ?thesis
    by (simp add: decode_beam_search_with_kg_def initialize_beam_search_def ex_bs ex_start
        starts_def ebind_def numeral_2_eq_2 ex_compute_logits [simplified] ex_top_k [simplified]
        u [simplified])
qed

theorem beam_search_raises_witness:
  "length (fst (token_encoding ex_args)) = 1
   \<and> kgsf.response_truncate ex_model = 2
   \<and> compute_logits ex_model [starts ex_model 1] ex_args None = Inr [[[0, 0, 1]]]
   \<and> get_top_k_probabilities [[[0, 0, 1]]] 1 = Inr ([[[1]]], [[[0]]])
   \<and> tindexes (tensor3 [[[0 :: nat]]]) [0, 0, 0] = Inr (Scalar 0)
   \<and> tindexes (tensor3 [[[0 :: nat]]]) [0, 0, 0, 0] = Inl IndexError
   \<and> decode_beam_search_with_kg ex_model ex_args 1 = Inl IndexError
   \<and> decode_greedy_with_kg ex_model ex_args = Inr ([[[0, 0, 1]]], [[1, 2]])"
  using beam_search_raises [of ex_model ex_args] ex_beam ex_greedy ex_compute_logits ex_top_k
  by (simp add: ex_bs ex_start starts_def tensor3_def tensor2_def tensor1_def ebind_def)

section \<open>The decoding mode of a conversation step (C10)\<close>

lemma decode_forced_preds:
  "decode_forced_with_kg m a resp = Inr (logits, preds) \<Longrightarrow> preds = map (map argmax) logits"
  by (auto simp: decode_forced_with_kg_def Let_def dest!: ebind_Inr)

lemma conv_evaluate_trace:
  "trace (conv_evaluate sys prediction resp)
     = trace sys @ map (\<lambda>(p, r). GenEvaluate p r) (zip prediction resp)"
proof -
  have "trace (fold (\<lambda>(p, r) s. log_event s (GenEvaluate p r)) prs sys)
          = trace sys @ map (\<lambda>(p, r). GenEvaluate p r) prs" for prs
    by (induction prs arbitrary: sys) (auto simp: log_event_def)
  then show ?thesis by (simp add: conv_evaluate_def)
qed

text \<open>
  C10. For a batch whose ids \<open>converse\<close> can look up: in every mode other than
  \<open>'test'\<close>, \<open>converse\<close> runs forced decoding on the response and returns the loss with
  the per-position argmaxes of the forced logits (or the error forced decoding or the
  loss raises); in mode \<open>'test'\<close> it runs greedy decoding and returns its predictions
  alone. A conversation step in a mode that is neither \<open>'train'\<close> nor \<open>'test'\<close> (so
  \<open>'val'\<close>) hands the evaluator those teacher-forced predictions, paired with the
  responses, and records the loss; it never decodes greedily.
\<close>

theorem converse_decoding_mode:
  assumes args: "conv_args (model sys) ct ce cw = Inr a"
  shows "(mode \<noteq> ''test'' \<longrightarrow>
            converse (model sys) (ct, ce, cw, resp) mode =
              (case decode_forced_with_kg (model sys) a resp of
                 Inl e \<Rightarrow> Inl e
               | Inr (logits, preds) \<Rightarrow>
                   (case forced_loss (model sys) logits resp of
                      Inl e \<Rightarrow> Inl e
                    | Inr loss \<Rightarrow> Inr (LossPreds loss (map (map argmax) logits)))))
       \<and> (mode = ''test'' \<longrightarrow>
            converse (model sys) (ct, ce, cw, resp) mode =
              (case decode_greedy_with_kg (model sys) a of
                 Inl e \<Rightarrow> Inl e
               | Inr (logits, preds) \<Rightarrow> Inr (Preds preds)))
       \<and> (mode \<noteq> ''test'' \<and> mode \<noteq> ''train'' \<longrightarrow>
            (\<forall>sys'. handle_conv_stage sys (ConvBatch ct ce cw resp) mode = Inr sys' \<longrightarrow>
               (\<exists>logits loss.
                  decode_forced_with_kg (model sys) a resp = Inr (logits, map (map argmax) logits)
                  \<and> forced_loss (model sys) logits resp = Inr loss
                  \<and> trace sys' = trace sys
                       @ map (\<lambda>(p, r). GenEvaluate p r) (zip (map (map argmax) logits) resp)
                       @ [OptimMetric ''gen_loss'' loss, GenMetric ''ppl'' loss])))"
proof -
  have A: "mode \<noteq> ''test'' \<longrightarrow>
            converse (model sys) (ct, ce, cw, resp) mode =
              (case decode_forced_with_kg (model sys) a resp of
                 Inl e \<Rightarrow> Inl e
               | Inr (logits, preds) \<Rightarrow>
                   (case forced_loss (model sys) logits resp of
                      Inl e \<Rightarrow> Inl e
                    | Inr loss \<Rightarrow> Inr (LossPreds loss (map (map argmax) logits))))"
    using args
    by (auto simp: converse_def ebind_def split: sum.splits dest: decode_forced_preds)
  have B: "mode = ''test'' \<longrightarrow>
            converse (model sys) (ct, ce, cw, resp) mode =
              (case decode_greedy_with_kg (model sys) a of
                 Inl e \<Rightarrow> Inl e
               | Inr (logits, preds) \<Rightarrow> Inr (Preds preds))"
    using args by (auto simp: converse_def ebind_def split: sum.splits)
  have C: "mode \<noteq> ''test'' \<and> mode \<noteq> ''train'' \<longrightarrow>
            (\<forall>sys'. handle_conv_stage sys (ConvBatch ct ce cw resp) mode = Inr sys' \<longrightarrow>
               (\<exists>logits loss.
                  decode_forced_with_kg (model sys) a resp = Inr (logits, map (map argmax) logits)
                  \<and> forced_loss (model sys) logits resp = Inr loss
                  \<and> trace sys' = trace sys
                       @ map (\<lambda>(p, r). GenEvaluate p r) (zip (map (map argmax) logits) resp)
                       @ [OptimMetric ''gen_loss'' loss, GenMetric ''ppl'' loss]))"
  proof (intro impI allI)
    fix sys'
    assume md: "mode \<noteq> ''test'' \<and> mode \<noteq> ''train''"
      and run: "handle_conv_stage sys (ConvBatch ct ce cw resp) mode = Inr sys'"
    from run md obtain out where
      fwd: "forward (model sys) (ConvBatch ct ce cw resp) ''conv'' mode = Inr out"
      by (auto simp: handle_conv_stage_def dest!: ebind_Inr)
    then obtain co where co: "converse (model sys) (ct, ce, cw, resp) mode = Inr co" "out = ConvOut co"
      by (auto simp: forward_def dest!: ebind_Inr)
    from co(1) A md obtain logits loss where
      f: "decode_forced_with_kg (model sys) a resp = Inr (logits, map (map argmax) logits)"
      and l: "forced_loss (model sys) logits resp = Inr loss"
      and c: "co = LossPreds loss (map (map argmax) logits)"
      by (auto split: sum.splits dest: decode_forced_preds)
    from run md fwd co(2) c have
      "sys' = log_event (log_event (conv_evaluate sys (map (map argmax) logits) resp)
                 (OptimMetric ''gen_loss'' loss)) (GenMetric ''ppl'' loss)"
      by (simp add: handle_conv_stage_def ebind_def Let_def)
    then have "trace sys' = trace sys
                       @ map (\<lambda>(p, r). GenEvaluate p r) (zip (map (map argmax) logits) resp)
                       @ [OptimMetric ''gen_loss'' loss, GenMetric ''ppl'' loss]"
      by (simp add: log_event_def conv_evaluate_trace)
    with f l show "\<exists>logits loss.
                  decode_forced_with_kg (model sys) a resp = Inr (logits, map (map argmax) logits)
                  \<and> forced_loss (model sys) logits resp = Inr loss
                  \<and> trace sys' = trace sys
                       @ map (\<lambda>(p, r). GenEvaluate p r) (zip (map (map argmax) logits) resp)
                       @ [OptimMetric ''gen_loss'' loss, GenMetric ''ppl'' loss]"
      by blast
  qed
  from A B C show ?thesis by blast
qed


lemma ex_handle_conv_val:
  "handle_conv_stage ex_system (ConvBatch [[1, 2]] [[1]] [[1]] [[1, 2, 0]]) ''val'' =
     Inr (ex_system\<lparr>trace := [GenEvaluate [2, 2, 2] [1, 2, 0], OptimMetric ''gen_loss'' 2,
                                GenMetric ''ppl'' 2]\<rparr>)"
  using ex_converse_val [of "''val''"]
  by (simp add: handle_conv_stage_def forward_def ebind_def conv_evaluate_def log_event_def
      ex_system_def)

theorem converse_decoding_mode_witness:
  "conv_args (model ex_system) [[1, 2]] [[1]] [[1]] = Inr ex_args
   \<and> converse (model ex_system) ([[1, 2]], [[1]], [[1]], [[1, 2, 0]]) ''val'' =
       Inr (LossPreds 2 [[2, 2, 2]])
   \<and> converse (model ex_system) ([[1, 2]], [[1]], [[1]], [[1, 2, 0]]) ''test'' =
       Inr (Preds [[1, 2]])
   \<and> decode_forced_with_kg (model ex_system) ex_args [[1, 2, 0]] =
       Inr ([[[0, 0, 1], [0, 0, 1], [0, 0, 1]]], [[2, 2, 2]])
   \<and> decode_greedy_with_kg (model ex_system) ex_args = Inr ([[[0, 0, 1]]], [[1, 2]])
   \<and> handle_conv_stage ex_system (ConvBatch [[1, 2]] [[1]] [[1]] [[1, 2, 0]]) ''val'' =
       Inr (ex_system\<lparr>trace := [GenEvaluate [2, 2, 2] [1, 2, 0], OptimMetric ''gen_loss'' 2,
                                  GenMetric ''ppl'' 2]\<rparr>)"
proof -
  have m: "model ex_system = ex_model" by (simp add: ex_system_def)
  have a: "conv_args (model ex_system) [[1, 2]] [[1]] [[1]] = Inr ex_args"
    by (simp add: m ex_conv_args [simplified])
  from converse_decoding_mode [OF a, of "''val''" "[[1, 2, 0]]"]
    converse_decoding_mode [OF a, of "''test''" "[[1, 2, 0]]"]
    a ex_forced ex_greedy ex_handle_conv_val
  show ?thesis by (simp add: m ex_forced_loss argmax_def)
qed

section \<open>Freezing before the conversation phase (C5)\<close>

lemma freeze_fold:
  "fold (\<lambda>p rg. rg(p := False)) ps rg = (\<lambda>q. if q \<in> set ps then False else rg q)"
  by (induction ps arbitrary: rg) (auto simp: fun_eq_iff)

lemma freeze_parameters_apply:
  "freeze_parameters m rg p
     = (if p \<in> set (concat (map (parameters m) freeze_models)) then False else rg p)"
  by (simp only: freeze_parameters_def freeze_fold)

lemma frozen_params:
  "(md, i) \<in> set (concat (map (parameters m) freeze_models))
     \<longleftrightarrow> md \<in> set freeze_models \<and> i < n_params m md"
  by (auto simp: parameters_def freeze_models_def)

lemma frozen_module:
  assumes "md \<in> set freeze_models" and "p \<in> set (parameters m md)"
  shows "\<not> freeze_parameters m rg p"
proof -
  from assms have "p \<in> set (concat (map (parameters m) freeze_models))" by auto
  then show ?thesis by (simp only: freeze_parameters_apply if_True) simp
qed

lemma same_module_refl: "same_module md m m"
  by (cases md) simp_all

lemma same_module_trans:
  "same_module md a b \<Longrightarrow> same_module md b c \<Longrightarrow> same_module md a c"
  by (cases md) simp_all

lemma parameters_cong: "n_params m' = n_params m \<Longrightarrow> parameters m' md = parameters m md"
  by (simp add: parameters_def)

lemma later_refl: "later sys sys"
  by (simp add: later_def same_module_refl)

lemma later_trans:
  assumes "later a b" and "later b c"
  shows "later a c"
proof -
  from assms(1) obtain es where ab: "wrapped b = wrapped a" "requires_grad b = requires_grad a"
    "gradient_step b = gradient_step a" "n_params (model b) = n_params (model a)"
    "\<forall>md. (\<forall>p \<in> set (parameters (model a) md). \<not> requires_grad a p)
           \<longrightarrow> same_module md (model a) (model b)"
    "trace b = trace a @ es"
    by (auto simp: later_def)
  from assms(2) obtain es' where bc: "wrapped c = wrapped b" "requires_grad c = requires_grad b"
    "gradient_step c = gradient_step b" "n_params (model c) = n_params (model b)"
    "\<forall>md. (\<forall>p \<in> set (parameters (model b) md). \<not> requires_grad b p)
           \<longrightarrow> same_module md (model b) (model c)"
    "trace c = trace b @ es'"
    by (auto simp: later_def)
  have mods: "\<forall>md. (\<forall>p \<in> set (parameters (model a) md). \<not> requires_grad a p)
           \<longrightarrow> same_module md (model a) (model c)"
  proof (intro allI impI)
    fix md assume f: "\<forall>p \<in> set (parameters (model a) md). \<not> requires_grad a p"
    with ab(5) have 1: "same_module md (model a) (model b)" by blast
    from f have "\<forall>p \<in> set (parameters (model b) md). \<not> requires_grad b p"
      by (simp only: parameters_cong [OF ab(4)] ab(2))
    with bc(5) have "same_module md (model b) (model c)" by blast
    with 1 show "same_module md (model a) (model c)" by (rule same_module_trans)
  qed
  have "trace c = trace a @ (es @ es')" using ab(6) bc(6) by simp
  then have "\<exists>es. trace c = trace a @ es" by blast
  with mods ab(1-4) bc(1-4) show ?thesis
    unfolding later_def by simp
qed

lemma later_log: "later sys (log_event sys e)"
  by (simp add: later_def log_event_def same_module_refl)

lemma later_backward:
  assumes "keeps_non_trainable (gradient_step sys)"
  shows "later sys (backward sys b loss)"
proof -
  let ?m = "gradient_step sys (requires_grad sys) (model sys) b loss"
  from assms have n: "n_params ?m = n_params (model sys)"
    and k: "\<forall>md. (\<forall>p \<in> set (parameters (model sys) md). \<not> requires_grad sys p)
               \<longrightarrow> same_module md (model sys) ?m"
    unfolding keeps_non_trainable_def by blast+
  then show ?thesis by (simp add: later_def backward_def log_event_def)
qed

lemma later_conv_evaluate: "later sys (conv_evaluate sys p r)"
proof -
  have "later sys (fold (\<lambda>(p, r) s. log_event s (GenEvaluate p r)) prs sys)" for prs
  proof (induction prs arbitrary: sys)
    case Nil
    then show ?case by (simp add: later_refl)
  next
    case (Cons x prs)
    obtain p r where x: "x = (p, r)" by (cases x)
    have "later sys (log_event sys (GenEvaluate p r))" by (rule later_log)
    from later_trans [OF this Cons.IH] show ?case by (simp add: x)
  qed
  then show ?thesis by (simp add: conv_evaluate_def)
qed

lemma later_handle_conv:
  assumes "handle_conv_stage sys b mode = Inr sys'"
    and "keeps_non_trainable (gradient_step sys)"
  shows "later sys sys'"
proof (cases "mode = ''test''")
  case True
  with assms(1) obtain pred resp where "sys' = conv_evaluate sys pred resp"
    by (auto simp: handle_conv_stage_def dest!: ebind_Inr
        split: fwd_out.splits conv_out.splits batch.splits)
  then show ?thesis by (simp add: later_conv_evaluate)
next
  case False
  with assms(1) obtain gen_loss pred resp where
    s: "sys' = log_event (log_event (if mode = ''train'' then backward sys b gen_loss
                        else conv_evaluate sys pred resp) (OptimMetric ''gen_loss'' gen_loss))
               (GenMetric ''ppl'' gen_loss)"
    by (auto simp: handle_conv_stage_def Let_def dest!: ebind_Inr
        split: fwd_out.splits conv_out.splits batch.splits)
  let ?s1 = "if mode = ''train'' then backward sys b gen_loss else conv_evaluate sys pred resp"
  have 1: "later sys ?s1" by (simp add: later_backward [OF assms(2)] later_conv_evaluate)
  have 2: "later ?s1 (log_event ?s1 (OptimMetric ''gen_loss'' gen_loss))"
    by (rule later_log)
  have 3: "later (log_event ?s1 (OptimMetric ''gen_loss'' gen_loss)) sys'"
    unfolding s by (rule later_log)
  from later_trans [OF later_trans [OF 1 2] 3] show ?thesis .
qed

lemma later_keeps:
  "later sys sys' \<Longrightarrow> keeps_non_trainable (gradient_step sys)
     \<Longrightarrow> keeps_non_trainable (gradient_step sys')"
  by (simp add: later_def)

lemma later_run_steps:
  "run_steps sys bs ''conv'' mode = (sys', err) \<Longrightarrow> keeps_non_trainable (gradient_step sys)
     \<Longrightarrow> later sys sys'"
proof (induction bs arbitrary: sys)
  case Nil
  then show ?case by (simp add: later_refl)
next
  case (Cons b bs)
  show ?case
  proof (cases "step sys b ''conv'' mode")
    case (Inl e)
    with Cons.prems show ?thesis by (simp add: later_refl)
  next
    case (Inr s1)
    then have l1: "later sys s1" using Cons.prems(2) by (simp add: step_def later_handle_conv)
    from Cons.prems Inr have "run_steps s1 bs ''conv'' mode = (sys', err)" by simp
    from Cons.IH [OF this later_keeps [OF l1 Cons.prems(2)]] have "later s1 sys'" .
    with l1 show ?thesis by (rule later_trans)
  qed
qed

lemma later_conv_epochs:
  "conv_epochs n sys train valid = (sys', err) \<Longrightarrow> keeps_non_trainable (gradient_step sys)
     \<Longrightarrow> later sys sys'"
proof (induction n arbitrary: sys)
  case 0
  then show ?case by (simp add: later_refl)
next
  case (Suc n)
  note H = Suc.prems(2)
  let ?s0 = "log_event sys ResetMetrics"
  obtain s1 e1 where r1: "run_steps ?s0 train ''conv'' ''train'' = (s1, e1)"
    by (cases "run_steps ?s0 train ''conv'' ''train''")
  have l0: "later sys ?s0" by (rule later_log)
  have l1: "later sys s1"
    using later_trans [OF l0 later_run_steps [OF r1 later_keeps [OF l0 H]]] .
  show ?case
  proof (cases e1)
    case (Some e)
    with Suc.prems(1) r1 have "sys' = s1" by simp
    with l1 show ?thesis by simp
  next
    case None
    let ?s = "log_event (log_event s1 Report) ResetMetrics"
    obtain s2 e2 where r2: "run_steps ?s valid ''conv'' ''val'' = (s2, e2)"
      by (cases "run_steps ?s valid ''conv'' ''val''")
    have "later s1 (log_event s1 Report)" by (rule later_log)
    moreover have "later (log_event s1 Report) ?s" by (rule later_log)
    ultimately have "later s1 ?s" by (rule later_trans)
    with l1 have ls: "later sys ?s" by (rule later_trans)
    from later_trans [OF ls later_run_steps [OF r2 later_keeps [OF ls H]]]
    have l2: "later sys s2" .
    show ?thesis
    proof (cases e2)
      case (Some e)
      with Suc.prems(1) r1 None r2 have "sys' = s2" by simp
      with l2 show ?thesis by simp
    next
      case n2: None
      with Suc.prems(1) r1 None r2 have c: "conv_epochs n (log_event s2 Report) train valid = (sys', err)"
        by simp
      have "later s2 (log_event s2 Report)" by (rule later_log)
      with l2 have l3: "later sys (log_event s2 Report)" by (rule later_trans)
      from Suc.IH [OF c later_keeps [OF l3 H]] have "later (log_event s2 Report) sys'" .
      with l3 show ?thesis by (rule later_trans)
    qed
  qed
qed

lemma later_train_conversation:
  assumes run: "train_conversation sys (Some v) n train valid test = (sys', err)"
    and fits: "(v = ''-1'') \<noteq> wrapped sys"
    and H: "keeps_non_trainable (gradient_step sys)"
  shows "later (log_event (sys\<lparr>requires_grad := freeze_parameters (model sys) (requires_grad sys)\<rparr>)
                  InitOptim) sys'"
proof -
  let ?s1 = "sys\<lparr>requires_grad := freeze_parameters (model sys) (requires_grad sys)\<rparr>"
  let ?s2 = "log_event ?s1 InitOptim"
  have H2: "keeps_non_trainable (gradient_step ?s2)" using H by (simp add: log_event_def)
  obtain s3 e3 where r3: "conv_epochs n ?s2 train valid = (s3, e3)"
    by (cases "conv_epochs n ?s2 train valid")
  have l3: "later ?s2 s3" using later_conv_epochs [OF r3 H2] .
  show ?thesis
  proof (cases e3)
    case (Some e)
    with run fits r3 have "sys' = s3" by (simp add: train_conversation_def Let_def)
    with l3 show ?thesis by simp
  next
    case None
    let ?s = "log_event s3 ResetMetrics"
    obtain s4 e4 where r4: "run_steps ?s test ''conv'' ''test'' = (s4, e4)"
      by (cases "run_steps ?s test ''conv'' ''test''")
    have "later s3 ?s" by (rule later_log)
    with l3 have ls: "later ?s2 ?s" by (rule later_trans)
    from later_trans [OF ls later_run_steps [OF r4 later_keeps [OF ls H2]]]
    have l4: "later ?s2 s4" .
    show ?thesis
    proof (cases e4)
      case (Some e)
      with run fits r3 None r4 have "sys' = s4" by (simp add: train_conversation_def Let_def)
      with l4 show ?thesis by simp
    next
      case n4: None
      with run fits r3 None r4 have "sys' = log_event s4 Report"
        by (simp add: train_conversation_def Let_def)
      moreover have "later s4 (log_event s4 Report)" by (rule later_log)
      ultimately show ?thesis using l4 later_trans by auto
    qed
  qed
qed

text \<open>
  C5, as amended. Take a gradient-update step that leaves non-trainable parameters
  as they are. When the call by which \<open>train_conversation\<close> freezes fits how the system
  holds the model (the model itself for \<open>CUDA_VISIBLE_DEVICES\<close> \<open>'-1'\<close>, wrapped for any
  other value), the freeze comes before the optimizer is set up and before any step:
  in the system the phase leaves, also when an exception ends it, every parameter of
  the nine modules \<open>freeze_parameters\<close> lists (word embedding, entity and word graph
  encoders, the two self-attention poolers, gate layer, infomax norm and bias,
  recommendation bias) does not require a gradient, the flag of every parameter of any
  other module, the token embedding among them, is as it was, and each of the nine
  modules is unchanged: no gradient step of the phase has updated a parameter of it.
  When the call does not fit, or the variable is not set, it raises before anything is
  frozen, and no step runs.
\<close>

theorem freeze_before_conversation:
  assumes run: "train_conversation sys cvd n train valid test = (sys', err)"
    and H: "keeps_non_trainable (gradient_step sys)"
  shows "(\<forall>md \<in> set freeze_models. same_module md (model sys) (model sys'))
       \<and> ((\<exists>v. cvd = Some v \<and> (v = ''-1'') \<noteq> wrapped sys) \<longrightarrow>
            (\<forall>md \<in> set freeze_models. \<forall>p \<in> set (parameters (model sys) md). \<not> requires_grad sys' p)
            \<and> (\<forall>md i. md \<notin> set freeze_models \<longrightarrow> requires_grad sys' (md, i) = requires_grad sys (md, i))
            \<and> (\<exists>es. trace sys' = trace sys @ InitOptim # es))
       \<and> (\<not> (\<exists>v. cvd = Some v \<and> (v = ''-1'') \<noteq> wrapped sys) \<longrightarrow>
            sys' = sys \<and> (err = Some KeyError \<or> err = Some AttributeError))"
proof (cases "\<exists>v. cvd = Some v \<and> (v = ''-1'') \<noteq> wrapped sys")
  case False
  have "sys' = sys \<and> (err = Some KeyError \<or> err = Some AttributeError)"
  proof (cases cvd)
    case None
    with run show ?thesis by (simp add: train_conversation_def)
  next
    case (Some v)
    with False have "(v = ''-1'') = wrapped sys" by simp
    with run Some show ?thesis by (simp add: train_conversation_def)
  qed
  with False show ?thesis by (simp add: same_module_refl)
next
  case True
  then obtain v where v: "cvd = Some v" and fits: "(v = ''-1'') \<noteq> wrapped sys" by blast
  let ?rg = "freeze_parameters (model sys) (requires_grad sys)"
  let ?s2 = "log_event (sys\<lparr>requires_grad := ?rg\<rparr>) InitOptim"
  from later_train_conversation [OF run [unfolded v] fits H]
  have l: "later ?s2 sys'" .
  then obtain es where rg: "requires_grad sys' = ?rg"
    and mods: "\<forall>md. (\<forall>p \<in> set (parameters (model sys) md). \<not> ?rg p)
                 \<longrightarrow> same_module md (model sys) (model sys')"
    and tr: "trace sys' = (trace sys @ [InitOptim]) @ es"
    by (auto simp: later_def log_event_def)
  have A: "\<forall>md \<in> set freeze_models. same_module md (model sys) (model sys')"
  proof
    fix md assume md: "md \<in> set freeze_models"
    have "\<forall>p \<in> set (parameters (model sys) md). \<not> ?rg p"
      using frozen_module [OF md] by blast
    with mods show "same_module md (model sys) (model sys')" by blast
  qed
  have B: "\<forall>md \<in> set freeze_models. \<forall>p \<in> set (parameters (model sys) md). \<not> requires_grad sys' p"
    unfolding rg using frozen_module by blast
  have C: "\<forall>md i. md \<notin> set freeze_models \<longrightarrow> requires_grad sys' (md, i) = requires_grad sys (md, i)"
    by (simp only: rg freeze_parameters_apply frozen_params) simp
  have D: "\<exists>es. trace sys' = trace sys @ InitOptim # es" using tr by simp
  from True A B C D show ?thesis by blast
qed

lemma ex_keeps_non_trainable: "keeps_non_trainable ex_gradient_step"
  unfolding keeps_non_trainable_def
proof (intro allI conjI impI)
  fix rg m b loss
  show "n_params (ex_gradient_step rg m b loss) = n_params m"
    by (simp add: ex_gradient_step_def)
next
  fix rg m b loss md
  assume "\<forall>p \<in> set (parameters m md). \<not> rg p"
  then have "\<not> list_ex rg (parameters m md)" by (simp add: list_ex_iff)
  then show "same_module md m (ex_gradient_step rg m b loss)"
    by (cases md) (simp_all add: ex_gradient_step_def)
qed

lemma ex_handle_conv_train:
  "model sys = ex_model \<Longrightarrow>
   handle_conv_stage sys (ConvBatch [[1, 2]] [[1]] [[1]] [[1, 2, 0]]) ''train'' =
     Inr (sys\<lparr>model := gradient_step sys (requires_grad sys) ex_model
                          (ConvBatch [[1, 2]] [[1]] [[1]] [[1, 2, 0]]) 2,
              trace := trace sys @ [Backward 2, OptimMetric ''gen_loss'' 2, GenMetric ''ppl'' 2]\<rparr>)"
  using ex_converse_val [of "''train''"]
  by (simp add: handle_conv_stage_def forward_def ebind_def backward_def log_event_def)

lemma ex_frozen_step:
  "ex_gradient_step (freeze_parameters ex_model (\<lambda>p. True)) ex_model b 2 =
     ex_model\<lparr>token_embedding := [[- 2], [- 2], [- 1]]\<rparr>"
  by (simp add: ex_gradient_step_def freeze_parameters_def freeze_models_def parameters_def
      ex_model_def)

lemma ex_train_conversation:
  "train_conversation ex_system (Some ''-1'') 1 [ConvBatch [[1, 2]] [[1]] [[1]] [[1, 2, 0]]] [] [] =
     (ex_system\<lparr>model := ex_model\<lparr>token_embedding := [[- 2], [- 2], [- 1]]\<rparr>,
                 requires_grad := freeze_parameters ex_model (\<lambda>p. True),
                 trace := [InitOptim, ResetMetrics, Backward 2, OptimMetric ''gen_loss'' 2,
                           GenMetric ''ppl'' 2, Report, ResetMetrics, Report, ResetMetrics,
                           Report]\<rparr>, None)"
  by (simp add: train_conversation_def Let_def step_def ex_handle_conv_train [simplified]
      log_event_def ex_system_def ex_frozen_step)

theorem freeze_before_conversation_witness:
  "keeps_non_trainable (gradient_step ex_system)
   \<and> train_conversation ex_system (Some ''-1'') 1 [ConvBatch [[1, 2]] [[1]] [[1]] [[1, 2, 0]]] [] [] =
     (ex_system\<lparr>model := ex_model\<lparr>token_embedding := [[- 2], [- 2], [- 1]]\<rparr>,
                 requires_grad := freeze_parameters ex_model (\<lambda>p. True),
                 trace := [InitOptim, ResetMetrics, Backward 2, OptimMetric ''gen_loss'' 2,
                           GenMetric ''ppl'' 2, Report, ResetMetrics, Report, ResetMetrics,
                           Report]\<rparr>, None)
   \<and> \<not> wrapped ex_system
   \<and> \<not> freeze_parameters ex_model (\<lambda>p. True) (Word_kg_embedding, 0)
   \<and> \<not> freeze_parameters ex_model (\<lambda>p. True) (Rec_bias, 0)
   \<and> freeze_parameters ex_model (\<lambda>p. True) (Conv_encoder, 0)
   \<and> rec_bias (ex_model\<lparr>token_embedding := [[- 2], [- 2], [- 1]]\<rparr>) = rec_bias ex_model
   \<and> rec_bias (ex_gradient_step (\<lambda>p. True) ex_model
                 (ConvBatch [[1, 2]] [[1]] [[1]] [[1, 2, 0]]) 2) = [- 2, - 2, - 2]
   \<and> train_conversation ex_system (Some ''0'') 1 [ConvBatch [[1, 2]] [[1]] [[1]] [[1, 2, 0]]] [] [] =
       (ex_system, Some AttributeError)"
proof -
  have H: "keeps_non_trainable (gradient_step ex_system)"
    by (simp add: ex_system_def ex_keeps_non_trainable)
  have w: "\<not> wrapped ex_system" by (simp add: ex_system_def)
  have a: "train_conversation ex_system (Some ''0'') 1 [ConvBatch [[1, 2]] [[1]] [[1]] [[1, 2, 0]]] [] []
           = (ex_system, Some AttributeError)"
    by (simp add: train_conversation_def ex_system_def)
  from freeze_before_conversation [OF ex_train_conversation H] H w a ex_train_conversation
  show ?thesis
    by (simp add: freeze_models_def parameters_def ex_system_def ex_model_def ex_gradient_step_def)
qed

text \<open>
  The claim as stated fails for the token embedding: it is not among the modules
  \<open>freeze_parameters\<close> lists, so its parameter still requires a gradient after the
  freeze, and the gradient step of the conversation phase changes it.
\<close>

theorem token_embedding_not_frozen:
  "(Token_embedding, 0) \<in> set (parameters ex_model Token_embedding)
   \<and> Token_embedding \<notin> set freeze_models
   \<and> freeze_parameters ex_model (requires_grad ex_system) (Token_embedding, 0)
   \<and> snd (train_conversation ex_system (Some ''-1'') 1
             [ConvBatch [[1, 2]] [[1]] [[1]] [[1, 2, 0]]] [] []) = None
   \<and> requires_grad (fst (train_conversation ex_system (Some ''-1'') 1
                             [ConvBatch [[1, 2]] [[1]] [[1]] [[1, 2, 0]]] [] []))
         (Token_embedding, 0)
   \<and> token_embedding (model ex_system) = [[0], [0], [1]]
   \<and> token_embedding (model (fst (train_conversation ex_system (Some ''-1'') 1
                             [ConvBatch [[1, 2]] [[1]] [[1]] [[1, 2, 0]]] [] [])))
       = [[- 2], [- 2], [- 1]]"
  using ex_train_conversation
  by (simp add: freeze_parameters_def freeze_models_def parameters_def ex_system_def ex_model_def)

end
